theory Spec2Isabelle
  imports Main "HOL-Library.Multiset"
begin

section \<open>Orphaned UTXO cleanup (run\_orphaned\_cleanup.py)\<close>

text \<open>
  The development embeds \<^verbatim>\<open>clean_orphaned_utxos(utxo_file, wallets_dir, dry_run)\<close>.
  Every exception the Python can raise on a JSON document is a branch of the model.
  What is left out: the \<^verbatim>\<open>print\<close> calls, the value of the report field
  \<^verbatim>\<open>orphaned_value_btp\<close> (a floating point quotient used for display only; the
  OverflowError its computation can raise is kept), and JSON numbers with a fraction or an
  exponent, which \<^verbatim>\<open>json.load\<close> turns into floats.
\<close>

subsection \<open>Values returned by json.load\<close>

datatype json =
    JNull
  | JBool bool
  | JInt int
  | JStr string
  | JArr "json list"
  | JObj "(string \<times> json) list"

datatype error =
    FileNotFoundError
  | IsADirectoryError
  | NotADirectoryError
  | SameFileError
  | JSONDecodeError
  | TypeError
  | AttributeError
  | KeyError
  | OverflowError

text \<open>
  The elements a Python set can hold among JSON values. \<^verbatim>\<open>True == 1\<close> and
  \<^verbatim>\<open>False == 0\<close> with equal hashes, so a boolean is the same set element as its
  integer. Lists and dicts are unhashable: \<^verbatim>\<open>set.add\<close> and \<^verbatim>\<open>in\<close> raise TypeError.
\<close>

datatype ident = INone | IInt int | IStr string

fun py_hashable :: "json \<Rightarrow> error + ident" where
  "py_hashable JNull = Inr INone"
| "py_hashable (JBool b) = Inr (IInt (if b then 1 else 0))"
| "py_hashable (JInt i) = Inr (IInt i)"
| "py_hashable (JStr s) = Inr (IStr s)"
| "py_hashable (JArr xs) = Inl TypeError"
| "py_hashable (JObj kvs) = Inl TypeError"

text \<open>\<^verbatim>\<open>needle in haystack\<close> on two strings: the substring test.\<close>

definition py_substring :: "string \<Rightarrow> string \<Rightarrow> bool" where
  "py_substring needle hay =
     list_ex (\<lambda>i. take (length needle) (drop i hay) = needle) [0..<Suc (length hay)]"

text \<open>\<^verbatim>\<open>key in d\<close> for a string key and whatever json.load returned.\<close>

fun py_contains :: "json \<Rightarrow> string \<Rightarrow> error + bool" where
  "py_contains (JObj kvs) k = Inr (map_of kvs k \<noteq> None)"
| "py_contains (JArr xs) k = Inr (JStr k \<in> set xs)"
| "py_contains (JStr s) k = Inr (py_substring k s)"
| "py_contains JNull k = Inl TypeError"
| "py_contains (JBool b) k = Inl TypeError"
| "py_contains (JInt i) k = Inl TypeError"

text \<open>\<^verbatim>\<open>d[key]\<close> for a string key.\<close>

fun py_getitem :: "json \<Rightarrow> string \<Rightarrow> error + json" where
  "py_getitem (JObj kvs) k = (case map_of kvs k of None \<Rightarrow> Inl KeyError | Some v \<Rightarrow> Inr v)"
| "py_getitem (JArr xs) k = Inl TypeError"
| "py_getitem (JStr s) k = Inl TypeError"
| "py_getitem JNull k = Inl TypeError"
| "py_getitem (JBool b) k = Inl TypeError"
| "py_getitem (JInt i) k = Inl TypeError"

text \<open>\<^verbatim>\<open>d.get(key, default)\<close>: only a dict has the method.\<close>

fun py_get :: "json \<Rightarrow> string \<Rightarrow> json \<Rightarrow> error + json" where
  "py_get (JObj kvs) k d = Inr (case map_of kvs k of None \<Rightarrow> d | Some v \<Rightarrow> v)"
| "py_get (JArr xs) k d = Inl AttributeError"
| "py_get (JStr s) k d = Inl AttributeError"
| "py_get JNull k d = Inl AttributeError"
| "py_get (JBool b) k d = Inl AttributeError"
| "py_get (JInt i) k d = Inl AttributeError"

text \<open>\<^verbatim>\<open>for x in v\<close>: a list gives its elements, a dict its keys, a string its characters.\<close>

fun py_iter :: "json \<Rightarrow> error + json list" where
  "py_iter (JArr xs) = Inr xs"
| "py_iter (JObj kvs) = Inr (map (\<lambda>kv. JStr (fst kv)) kvs)"
| "py_iter (JStr s) = Inr (map (\<lambda>c. JStr [c]) s)"
| "py_iter JNull = Inl TypeError"
| "py_iter (JBool b) = Inl TypeError"
| "py_iter (JInt i) = Inl TypeError"

text \<open>\<^verbatim>\<open>acc += value\<close> with an integer accumulator.\<close>

fun py_iadd :: "int \<Rightarrow> json \<Rightarrow> error + int" where
  "py_iadd acc (JInt i) = Inr (acc + i)"
| "py_iadd acc (JBool b) = Inr (acc + (if b then 1 else 0))"
| "py_iadd acc JNull = Inl TypeError"
| "py_iadd acc (JStr s) = Inl TypeError"
| "py_iadd acc (JArr xs) = Inl TypeError"
| "py_iadd acc (JObj kvs) = Inl TypeError"

subsection \<open>The identifier index (lines 25 to 37)\<close>

text \<open>
  \<^verbatim>\<open>if key in wallet_data: wallet_identifiers.add(wallet_data[key])\<close>
\<close>

definition add_identifier :: "string \<Rightarrow> json \<Rightarrow> ident set \<Rightarrow> error + ident set" where
  "add_identifier k wallet_data ids =
     (case py_contains wallet_data k of
        Inl e \<Rightarrow> Inl e
      | Inr False \<Rightarrow> Inr ids
      | Inr True \<Rightarrow>
          (case py_getitem wallet_data k of
             Inl e \<Rightarrow> Inl e
           | Inr v \<Rightarrow>
               (case py_hashable v of
                  Inl e \<Rightarrow> Inl e
                | Inr h \<Rightarrow> Inr (insert h ids))))"

definition add_wallet :: "json \<Rightarrow> ident set \<Rightarrow> error + ident set" where
  "add_wallet wallet_data ids =
     (case add_identifier ''public_key'' wallet_data ids of
        Inl e \<Rightarrow> Inl e
      | Inr ids1 \<Rightarrow> add_identifier ''address'' wallet_data ids1)"

subsection \<open>Owned and orphaned UTXOs (lines 42 to 63)\<close>

text \<open>
  The loop \<^verbatim>\<open>for utxo in utxos\<close> with its three accumulators
  \<^verbatim>\<open>owned_utxos\<close>, \<^verbatim>\<open>orphaned_utxos\<close> and \<^verbatim>\<open>orphaned_value_credits\<close>.
\<close>

fun partition_utxos ::
  "ident set \<Rightarrow> json list \<Rightarrow> json list \<times> json list \<times> int \<Rightarrow> error + json list \<times> json list \<times> int"
where
  "partition_utxos ids [] acc = Inr acc"
| "partition_utxos ids (utxo # rest) (owned, orphaned, credits) =
     (case py_get utxo ''address'' (JStr '''') of
        Inl e \<Rightarrow> Inl e
      | Inr address \<Rightarrow>
          (case py_hashable address of
             Inl e \<Rightarrow> Inl e
           | Inr h \<Rightarrow>
               if h \<in> ids then partition_utxos ids rest (owned @ [utxo], orphaned, credits)
               else
                 (case py_get utxo ''value_credits'' (JInt 0) of
                    Inl e \<Rightarrow> Inl e
                  | Inr v \<Rightarrow>
                      (case py_iadd credits v of
                         Inl e \<Rightarrow> Inl e
                       | Inr credits' \<Rightarrow>
                           partition_utxos ids rest (owned, orphaned @ [utxo], credits')))))"

record report =
  total_utxos :: nat
  owned_utxos :: nat
  orphaned_utxos :: nat
  orphaned_value_credits :: int

text \<open>
  Line 62, \<^verbatim>\<open>orphaned_value_credits / 100_000_000.0\<close>, first converts the integer to a
  float. The conversion rounds to the nearest double and raises OverflowError when that is
  beyond the largest one, which is the case from \<open>2 ^ 1024 - 2 ^ 970\<close> on, in magnitude.
\<close>

definition float_overflow :: "int \<Rightarrow> bool" where
  "float_overflow i = (2 ^ 1024 - 2 ^ 970 \<le> \<bar>i\<bar>)"

definition make_report :: "json list \<Rightarrow> json list \<Rightarrow> int \<Rightarrow> error + report" where
  "make_report owned orphaned credits =
     (if float_overflow credits then Inl OverflowError
      else Inr \<lparr> total_utxos = length owned + length orphaned,
                 owned_utxos = length owned,
                 orphaned_utxos = length orphaned,
                 orphaned_value_credits = credits \<rparr>)"

definition reconcile :: "ident set \<Rightarrow> json list \<Rightarrow> error + json list \<times> json list \<times> report" where
  "reconcile ids utxos =
     (case partition_utxos ids utxos ([], [], 0) of
        Inl e \<Rightarrow> Inl e
      | Inr (owned, orphaned, credits) \<Rightarrow>
          (case make_report owned orphaned credits of
             Inl e \<Rightarrow> Inl e
           | Inr report \<Rightarrow> Inr (owned, orphaned, report)))"

subsection \<open>Reading an entry the way the loop does\<close>

text \<open>
  The identifier an entry is tested with (its \<^verbatim>\<open>address\<close>, the empty string when the key
  is missing), whether that identifier is in the index, and the integer the entry adds to
  the orphaned sum (its \<^verbatim>\<open>value_credits\<close>, 0 when the key is missing).
\<close>

definition entry_ident :: "json \<Rightarrow> ident option" where
  "entry_ident utxo =
     (case py_get utxo ''address'' (JStr '''') of
        Inl e \<Rightarrow> None
      | Inr a \<Rightarrow> (case py_hashable a of Inl e \<Rightarrow> None | Inr h \<Rightarrow> Some h))"

definition is_owned :: "ident set \<Rightarrow> json \<Rightarrow> bool" where
  "is_owned ids utxo = (case entry_ident utxo of None \<Rightarrow> False | Some h \<Rightarrow> h \<in> ids)"

definition entry_value :: "json \<Rightarrow> int" where
  "entry_value utxo =
     (case py_get utxo ''value_credits'' (JInt 0) of
        Inr (JInt i) \<Rightarrow> i
      | Inr (JBool b) \<Rightarrow> (if b then 1 else 0)
      | _ \<Rightarrow> 0)"

text \<open>
  A UTXO entry as the data model has it: a JSON object whose \<^verbatim>\<open>address\<close>, when present,
  is a string and whose \<^verbatim>\<open>value_credits\<close>, when present, is an integer.
\<close>

fun utxo_entry :: "json \<Rightarrow> bool" where
  "utxo_entry (JObj kvs) =
     ((case map_of kvs ''address'' of None \<Rightarrow> True | Some (JStr s) \<Rightarrow> True | Some _ \<Rightarrow> False) \<and>
      (case map_of kvs ''value_credits'' of None \<Rightarrow> True | Some (JInt i) \<Rightarrow> True | Some _ \<Rightarrow> False))"
| "utxo_entry _ = False"

definition lacks_key :: "string \<Rightarrow> json \<Rightarrow> bool" where
  "lacks_key k v = (case v of JObj kvs \<Rightarrow> map_of kvs k = None | _ \<Rightarrow> False)"

subsection \<open>The file system\<close>

text \<open>
  A path is the list of its components, as \<^verbatim>\<open>pathlib\<close> splits it: \<^verbatim>\<open>p.parent\<close> drops the
  last one, \<^verbatim>\<open>p / name\<close> appends one. A directory holds the names \<^verbatim>\<open>os.listdir\<close> returns,
  in the order it returns them. A file holds bytes, whose representation is left open.
\<close>

type_synonym path = "string list"

datatype 'b node = File 'b | Dir "string list"

type_synonym 'b fs = "path \<Rightarrow> 'b node option"

text \<open>
  \<^verbatim>\<open>json.load\<close> and \<^verbatim>\<open>json.dump\<close> come from the standard library, not from this
  repository: \<open>loads\<close> is what \<^verbatim>\<open>json.load\<close> makes of a file's bytes (\<open>None\<close> when it
  raises), \<open>dumps\<close> the bytes \<^verbatim>\<open>json.dump(v, f, indent=2)\<close> writes, \<open>no_bytes\<close> the
  content of a file that \<^verbatim>\<open>open(p, 'w')\<close> has just truncated.
\<close>

record 'b codec =
  loads :: "'b \<Rightarrow> json option"
  dumps :: "json \<Rightarrow> 'b"
  no_bytes :: 'b

text \<open>
  What the run does to the file system, in order. Each event is kept with the file system
  as it is right after it, so that the states the run passes through can be read off.
\<close>

datatype event =
    EvExists path
  | EvOpenRead path
  | EvListdir path
  | EvCopy path path
  | EvOpenWrite path
  | EvDump path

record 'b world =
  files :: "'b fs"
  trace :: "(event \<times> 'b fs) list"

definition observe :: "event \<Rightarrow> 'b world \<Rightarrow> 'b world" where
  "observe e w = w\<lparr>trace := trace w @ [(e, files w)]\<rparr>"

definition commit :: "event \<Rightarrow> 'b fs \<Rightarrow> 'b world \<Rightarrow> 'b world" where
  "commit e fs' w = \<lparr>files = fs', trace = trace w @ [(e, fs')]\<rparr>"

definition path_name :: "path \<Rightarrow> string" where
  "path_name p = (case p of [] \<Rightarrow> [] | _ \<Rightarrow> last p)"

text \<open>\<^verbatim>\<open>utxo_file.exists()\<close>\<close>

definition path_exists :: "path \<Rightarrow> 'b world \<Rightarrow> bool \<times> 'b world" where
  "path_exists p w = (files w p \<noteq> None, observe (EvExists p) w)"

text \<open>\<^verbatim>\<open>with open(p, 'r') as f\<close>, read to the end.\<close>

definition open_read :: "path \<Rightarrow> 'b world \<Rightarrow> (error + 'b) \<times> 'b world" where
  "open_read p w =
     ((case files w p of
         None \<Rightarrow> Inl FileNotFoundError
       | Some (Dir names) \<Rightarrow> Inl IsADirectoryError
       | Some (File b) \<Rightarrow> Inr b),
      observe (EvOpenRead p) w)"

definition json_load :: "'b codec \<Rightarrow> 'b \<Rightarrow> error + json" where
  "json_load cd b = (case loads cd b of None \<Rightarrow> Inl JSONDecodeError | Some v \<Rightarrow> Inr v)"

text \<open>\<^verbatim>\<open>os.listdir(d)\<close>\<close>

definition listdir :: "path \<Rightarrow> 'b world \<Rightarrow> (error + string list) \<times> 'b world" where
  "listdir d w =
     ((case files w d of
         None \<Rightarrow> Inl FileNotFoundError
       | Some (File b) \<Rightarrow> Inl NotADirectoryError
       | Some (Dir names) \<Rightarrow> Inr names),
      observe (EvListdir d) w)"

text \<open>
  Opening \<open>p\<close> for writing with content \<open>b\<close>: the file is created when it is not there,
  and its directory then lists it.
\<close>

definition create_file :: "path \<Rightarrow> 'b \<Rightarrow> 'b fs \<Rightarrow> error + 'b fs" where
  "create_file p b fs =
     (case fs p of
        Some (Dir names) \<Rightarrow> Inl IsADirectoryError
      | _ \<Rightarrow>
          (case fs (butlast p) of
             None \<Rightarrow> Inl FileNotFoundError
           | Some (File x) \<Rightarrow> Inl NotADirectoryError
           | Some (Dir names) \<Rightarrow>
               Inr (fs(butlast p \<mapsto> Dir (if path_name p \<in> set names then names
                                           else names @ [path_name p]),
                       p \<mapsto> File b))))"

text \<open>
  \<^verbatim>\<open>shutil.copy2(src, dst)\<close>: a \<open>dst\<close> that is a directory receives the copy under the
  source's own name; copying a file onto itself raises SameFileError. The metadata
  \<^verbatim>\<open>copy2\<close> also copies is not part of the model.
\<close>

definition copy_target :: "'b fs \<Rightarrow> path \<Rightarrow> path \<Rightarrow> path" where
  "copy_target fs src dst =
     (case fs dst of Some (Dir names) \<Rightarrow> dst @ [path_name src] | _ \<Rightarrow> dst)"

definition copy2 :: "path \<Rightarrow> path \<Rightarrow> 'b world \<Rightarrow> (error + path) \<times> 'b world" where
  "copy2 src dst w =
     (let target = copy_target (files w) src dst in
      if target = src \<and> files w src \<noteq> None
      then (Inl SameFileError, observe (EvCopy src target) w)
      else
        (case files w src of
           None \<Rightarrow> (Inl FileNotFoundError, observe (EvCopy src target) w)
         | Some (Dir names) \<Rightarrow> (Inl IsADirectoryError, observe (EvCopy src target) w)
         | Some (File b) \<Rightarrow>
             (case create_file target b (files w) of
                Inl e \<Rightarrow> (Inl e, observe (EvCopy src target) w)
              | Inr fs' \<Rightarrow> (Inr target, commit (EvCopy src target) fs' w))))"

text \<open>\<^verbatim>\<open>open(p, 'w')\<close>: the file is empty from here on.\<close>

definition open_write :: "'b codec \<Rightarrow> path \<Rightarrow> 'b world \<Rightarrow> (error + unit) \<times> 'b world" where
  "open_write cd p w =
     (case create_file p (no_bytes cd) (files w) of
        Inl e \<Rightarrow> (Inl e, observe (EvOpenWrite p) w)
      | Inr fs' \<Rightarrow> (Inr (), commit (EvOpenWrite p) fs' w))"

text \<open>\<^verbatim>\<open>json.dump(v, f, indent=2)\<close> into the file opened at \<open>p\<close>, then closing it.\<close>

definition json_dump :: "'b codec \<Rightarrow> json \<Rightarrow> path \<Rightarrow> 'b world \<Rightarrow> 'b world" where
  "json_dump cd v p w = commit (EvDump p) ((files w)(p \<mapsto> File (dumps cd v))) w"

subsection \<open>The backup file's name (lines 74 and 75)\<close>

text \<open>
  \<^verbatim>\<open>datetime.now().strftime('%Y%m%d_%H%M%S')\<close>: each field in decimal, padded with zeros
  to its width. The clock reading is an input of the run. The model is that of the years
  1000 to 9999, which \<^verbatim>\<open>%Y\<close> prints in four digits.
\<close>

record datetime =
  year :: nat
  month :: nat
  day :: nat
  hour :: nat
  minute :: nat
  second :: nat

definition digit :: "nat \<Rightarrow> char" where
  "digit n = ''0123456789'' ! (n mod 10)"

fun zero_padded :: "nat \<Rightarrow> nat \<Rightarrow> string" where
  "zero_padded 0 n = []"
| "zero_padded (Suc width) n = zero_padded width (n div 10) @ [digit n]"

definition strftime :: "datetime \<Rightarrow> string" where
  "strftime t =
     zero_padded 4 (year t) @ zero_padded 2 (month t) @ zero_padded 2 (day t) @ ''_'' @
     zero_padded 2 (hour t) @ zero_padded 2 (minute t) @ zero_padded 2 (second t)"

definition backup_file :: "path \<Rightarrow> datetime \<Rightarrow> path" where
  "backup_file utxo_file now =
     butlast utxo_file @ [''wallet_utxos.json.orphan_backup_'' @ strftime now]"

subsection \<open>The run (lines 13 to 92)\<close>

definition startswith :: "string \<Rightarrow> string \<Rightarrow> bool" where
  "startswith s p = (take (length p) s = p)"

definition endswith :: "string \<Rightarrow> string \<Rightarrow> bool" where
  "endswith s p = (length p \<le> length s \<and> drop (length s - length p) s = p)"

definition is_wallet_name :: "string \<Rightarrow> bool" where
  "is_wallet_name filename = (startswith filename ''wallet_'' \<and> endswith filename ''.json'')"

text \<open>The loop \<^verbatim>\<open>for filename in os.listdir(wallets_dir)\<close>.\<close>

fun read_wallets ::
  "'b codec \<Rightarrow> path \<Rightarrow> string list \<Rightarrow> ident set \<Rightarrow> 'b world \<Rightarrow> (error + ident set) \<times> 'b world"
where
  "read_wallets cd wallets_dir [] ids w = (Inr ids, w)"
| "read_wallets cd wallets_dir (filename # rest) ids w =
     (if is_wallet_name filename then
        (case open_read (wallets_dir @ [filename]) w of
           (Inl e, w1) \<Rightarrow> (Inl e, w1)
         | (Inr b, w1) \<Rightarrow>
             (case json_load cd b of
                Inl e \<Rightarrow> (Inl e, w1)
              | Inr wallet_data \<Rightarrow>
                  (case add_wallet wallet_data ids of
                     Inl e \<Rightarrow> (Inl e, w1)
                   | Inr ids' \<Rightarrow> read_wallets cd wallets_dir rest ids' w1)))
      else read_wallets cd wallets_dir rest ids w)"

text \<open>Lines 72 to 81, taken when \<^verbatim>\<open>not dry_run and report['orphaned_utxos'] > 0\<close>.\<close>

definition rewrite_store ::
  "'b codec \<Rightarrow> datetime \<Rightarrow> path \<Rightarrow> json list \<Rightarrow> 'b world \<Rightarrow> (error + unit) \<times> 'b world"
where
  "rewrite_store cd now utxo_file owned w =
     (case copy2 utxo_file (backup_file utxo_file now) w of
        (Inl e, w1) \<Rightarrow> (Inl e, w1)
      | (Inr target, w1) \<Rightarrow>
          (case open_write cd utxo_file w1 of
             (Inl e, w2) \<Rightarrow> (Inl e, w2)
           | (Inr u, w2) \<Rightarrow> (Inr (), json_dump cd (JArr owned) utxo_file w2)))"

text \<open>Lines 16 to 63: everything the function does before it decides whether to write.\<close>

definition load_and_reconcile ::
  "'b codec \<Rightarrow> path \<Rightarrow> path \<Rightarrow> 'b world \<Rightarrow> (error + json list \<times> json list \<times> report) \<times> 'b world"
where
  "load_and_reconcile cd utxo_file wallets_dir w =
     (case path_exists utxo_file w of
        (False, w1) \<Rightarrow> (Inl FileNotFoundError, w1)
      | (True, w1) \<Rightarrow>
     (case open_read utxo_file w1 of
        (Inl e, w2) \<Rightarrow> (Inl e, w2)
      | (Inr b, w2) \<Rightarrow>
     (case json_load cd b of
        Inl e \<Rightarrow> (Inl e, w2)
      | Inr utxos \<Rightarrow>
     (case listdir wallets_dir w2 of
        (Inl e, w3) \<Rightarrow> (Inl e, w3)
      | (Inr names, w3) \<Rightarrow>
     (case read_wallets cd wallets_dir names {} w3 of
        (Inl e, w4) \<Rightarrow> (Inl e, w4)
      | (Inr wallet_identifiers, w4) \<Rightarrow>
     (case py_iter utxos of
        Inl e \<Rightarrow> (Inl e, w4)
      | Inr entries \<Rightarrow> (reconcile wallet_identifiers entries, w4)))))))"

definition clean_orphaned_utxos ::
  "'b codec \<Rightarrow> datetime \<Rightarrow> path \<Rightarrow> path \<Rightarrow> bool \<Rightarrow> 'b world \<Rightarrow> (error + report) \<times> 'b world"
where
  "clean_orphaned_utxos cd now utxo_file wallets_dir dry_run w =
     (case load_and_reconcile cd utxo_file wallets_dir w of
        (Inl e, w4) \<Rightarrow> (Inl e, w4)
      | (Inr (owned, orphaned, report), w4) \<Rightarrow>
          if \<not> dry_run \<and> orphaned_utxos report > 0 then
            (case rewrite_store cd now utxo_file owned w4 of
               (Inl e, w5) \<Rightarrow> (Inl e, w5)
             | (Inr u, w5) \<Rightarrow> (Inr report, w5))
          else (Inr report, w4))"

text \<open>The events that only look at the file system.\<close>

fun read_only :: "event \<Rightarrow> bool" where
  "read_only (EvExists p) = True"
| "read_only (EvOpenRead p) = True"
| "read_only (EvListdir p) = True"
| "read_only (EvCopy src dst) = False"
| "read_only (EvOpenWrite p) = False"
| "read_only (EvDump p) = False"

text \<open>What \<^verbatim>\<open>if key in wallet_data: wallet_identifiers.add(wallet_data[key])\<close> adds for a dict.\<close>

definition field_idents :: "(string \<times> json) list \<Rightarrow> string \<Rightarrow> ident set" where
  "field_idents kvs k =
     (case map_of kvs k of
        None \<Rightarrow> {}
      | Some v \<Rightarrow> (case py_hashable v of Inl e \<Rightarrow> {} | Inr h \<Rightarrow> {h}))"

definition field_hashable :: "(string \<times> json) list \<Rightarrow> string \<Rightarrow> bool" where
  "field_hashable kvs k =
     (case map_of kvs k of
        None \<Rightarrow> True
      | Some v \<Rightarrow> (case py_hashable v of Inl e \<Rightarrow> False | Inr h \<Rightarrow> True))"

text \<open>The bytes of the file at a path, when there is a file.\<close>

definition file_at :: "'b fs \<Rightarrow> path \<Rightarrow> 'b option" where
  "file_at fs p = (case fs p of Some (File b) \<Rightarrow> Some b | _ \<Rightarrow> None)"

text \<open>
  A stretch of the trace during which the run only looked at the file system \<open>fs\<close>.
\<close>

definition quiet :: "'b fs \<Rightarrow> (event \<times> 'b fs) list \<Rightarrow> bool" where
  "quiet fs evs = list_all (\<lambda>es. read_only (fst es) \<and> snd es = fs) evs"

text \<open>
  A wallet record as the data model has it: a JSON object whose \<^verbatim>\<open>public_key\<close> and
  \<^verbatim>\<open>address\<close>, when present, are strings; and the identifier such a field holds.
\<close>

definition string_or_absent :: "(string \<times> json) list \<Rightarrow> string \<Rightarrow> bool" where
  "string_or_absent kvs k =
     (case map_of kvs k of None \<Rightarrow> True | Some (JStr s) \<Rightarrow> True | Some _ \<Rightarrow> False)"

fun wallet_record :: "json \<Rightarrow> bool" where
  "wallet_record (JObj kvs) =
     (string_or_absent kvs ''public_key'' \<and> string_or_absent kvs ''address'')"
| "wallet_record _ = False"

definition field_string :: "(string \<times> json) list \<Rightarrow> string \<Rightarrow> ident set" where
  "field_string kvs k = (case map_of kvs k of Some (JStr s) \<Rightarrow> {IStr s} | _ \<Rightarrow> {})"

subsection \<open>Example inputs\<close>

text \<open>
  In the examples a file's bytes are represented by what \<^verbatim>\<open>json.load\<close> makes of them:
  \<open>Some v\<close> for a file that decodes to \<open>v\<close>, \<open>None\<close> for one that does not decode
  (the empty file among them).
\<close>

definition decoded :: "json option codec" where
  "decoded = \<lparr> loads = (\<lambda>b. b), dumps = Some, no_bytes = None \<rparr>"

definition utxo_a :: json where
  "utxo_a = JObj [(''address'', JStr ''addrA''), (''value_credits'', JInt 500)]"

definition utxo_b :: json where
  "utxo_b = JObj [(''address'', JStr ''addrB''), (''value_credits'', JInt 300)]"

definition wallet_a :: json where
  "wallet_a = JObj [(''public_key'', JStr ''pkA''), (''address'', JStr ''addrA'')]"

definition store_path :: path where
  "store_path = [''data'', ''wallet_utxos.json'']"

definition wallets_path :: path where
  "wallets_path = [''wallets'']"

definition noon :: datetime where
  "noon = \<lparr> year = 2025, month = 3, day = 9, hour = 12, minute = 0, second = 7 \<rparr>"

text \<open>
  A store of two entries beside a wallet directory that holds one wallet record and one
  file that is not a wallet record.
\<close>

definition example_fs :: "json option fs" where
  "example_fs =
     [[''data''] \<mapsto> Dir [''wallet_utxos.json''],
      store_path \<mapsto> File (Some (JArr [utxo_a, utxo_b])),
      wallets_path \<mapsto> Dir [''wallet_a.json'', ''notes.txt''],
      wallets_path @ [''wallet_a.json''] \<mapsto> File (Some wallet_a),
      wallets_path @ [''notes.txt''] \<mapsto> File None]"

definition example_world :: "json option world" where
  "example_world = \<lparr> files = example_fs, trace = [] \<rparr>"

definition utxo_c :: json where
  "utxo_c = JObj [(''address'', JStr ''addrC'')]"

text \<open>The same store with no wallet directory at all.\<close>

definition store_only_world :: "json option world" where
  "store_only_world =
     \<lparr> files = [[''data''] \<mapsto> Dir [''wallet_utxos.json''],
                 store_path \<mapsto> File (Some (JArr [utxo_a, utxo_b]))],
       trace = [] \<rparr>"

text \<open>The wallet directory with one more file, named like a wallet record, that is not JSON.\<close>

definition bad_wallet_world :: "json option world" where
  "bad_wallet_world =
     \<lparr> files = example_fs
                 (wallets_path \<mapsto> Dir [''wallet_a.json'', ''wallet_bad.json'', ''notes.txt''],
                  wallets_path @ [''wallet_bad.json''] \<mapsto> File None),
       trace = [] \<rparr>"

text \<open>The same store under another file name.\<close>

definition renamed_store_path :: path where
  "renamed_store_path = [''data'', ''utxos.json'']"

definition renamed_store_world :: "json option world" where
  "renamed_store_world =
     \<lparr> files = [[''data''] \<mapsto> Dir [''utxos.json''],
                 renamed_store_path \<mapsto> File (Some (JArr [utxo_a, utxo_b])),
                 wallets_path \<mapsto> Dir [''wallet_a.json''],
                 wallets_path @ [''wallet_a.json''] \<mapsto> File (Some wallet_a)],
       trace = [] \<rparr>"

text \<open>A wallet record whose public key is the empty string.\<close>

definition wallet_empty_key :: json where
  "wallet_empty_key = JObj [(''public_key'', JStr ''''), (''address'', JStr ''addrA'')]"

section \<open>Reconciliation\<close>

subsection \<open>The loop, for any accumulators\<close>

lemma partition_utxos_acc:
  "partition_utxos ids us (ow, orph, c) = Inr (ow', orph', c') \<Longrightarrow>
   ow' = ow @ filter (is_owned ids) us \<and>
   orph' = orph @ filter (\<lambda>u. \<not> is_owned ids u) us \<and>
   c' = c + sum_list (map entry_value (filter (\<lambda>u. \<not> is_owned ids u) us))"
proof (induction us arbitrary: ow orph c)
  case Nil
  then show ?case by simp
next
  case (Cons u us)
  show ?case
  proof (cases u)
    case (JObj kvs)
    obtain a where a: "py_get u ''address'' (JStr '''') = Inr a"
      using JObj by simp
    show ?thesis
    proof (cases "py_hashable a")
      case (Inl e)
      with Cons.prems a show ?thesis by simp
    next
      case (Inr h)
      show ?thesis
      proof (cases "h \<in> ids")
        case True
        then have own: "is_owned ids u" using a Inr by (simp add: is_owned_def entry_ident_def)
        from Cons.prems a Inr True
        have "partition_utxos ids us (ow @ [u], orph, c) = Inr (ow', orph', c')" by simp
        from Cons.IH[OF this] own show ?thesis by simp
      next
        case False
        then have own: "\<not> is_owned ids u" using a Inr by (simp add: is_owned_def entry_ident_def)
        obtain v where v: "py_get u ''value_credits'' (JInt 0) = Inr v" using JObj by simp
        show ?thesis
        proof (cases "py_iadd c v")
          case (Inl e)
          with Cons.prems a Inr False v show ?thesis by simp
        next
          case Inr2: (Inr c2)
          then have c2: "c2 = c + entry_value u"
            using v by (cases v) (simp_all add: entry_value_def)
          from Cons.prems a Inr False v Inr2
          have "partition_utxos ids us (ow, orph @ [u], c2) = Inr (ow', orph', c')" by simp
          from Cons.IH[OF this] own c2 show ?thesis by simp
        qed
      qed
    qed
  qed (use Cons.prems in simp_all)
qed

lemma partition_utxos_total:
  "list_all utxo_entry us \<Longrightarrow> \<exists>r. partition_utxos ids us acc = Inr r"
proof (induction us arbitrary: acc)
  case Nil
  then show ?case by (cases acc) auto
next
  case (Cons u us)
  obtain ow orph c where acc: "acc = (ow, orph, c)" by (cases acc) auto
  from Cons.prems have u: "utxo_entry u" and us: "list_all utxo_entry us" by simp_all
  from u obtain kvs where kvs: "u = JObj kvs" by (cases u) simp_all
  show ?case using u Cons.IH[OF us] unfolding acc kvs
    by (auto split: option.splits json.splits)
qed

subsection \<open>The report\<close>

lemma make_report_Inr:
  "make_report owned orphaned c = Inr rep \<longleftrightarrow>
     \<not> float_overflow c \<and>
     rep = \<lparr> total_utxos = length owned + length orphaned, owned_utxos = length owned,
             orphaned_utxos = length orphaned, orphaned_value_credits = c \<rparr>"
  by (auto simp: make_report_def)

lemma reconcile_Inr_iff:
  "reconcile ids utxos = Inr (owned, orphaned, rep) \<longleftrightarrow>
     (\<exists>c. partition_utxos ids utxos ([], [], 0) = Inr (owned, orphaned, c) \<and>
          \<not> float_overflow c \<and>
          rep = \<lparr> total_utxos = length owned + length orphaned, owned_utxos = length owned,
                  orphaned_utxos = length orphaned, orphaned_value_credits = c \<rparr>)"
  by (auto simp: reconcile_def make_report_def split: sum.splits if_splits)

lemma reconcile_overflow:
  assumes "partition_utxos ids utxos ([], [], 0) = Inr (owned, orphaned, c)"
    and "float_overflow c"
  shows "reconcile ids utxos = Inl OverflowError"
  using assms by (simp add: reconcile_def make_report_def)

text \<open>
  C1. For every list of entries and every identifier set, the reconciliation splits the
  entries by the membership test on their address: owned and orphaned together hold
  exactly the entries given (as multisets) and share none, the report's total is the sum
  of its two counts and the number of entries, and the orphaned credits are the integer
  sum of the orphaned entries' values. Whenever the reconciliation returns, the result is
  as said; and it returns on every list of entries of the data model whose orphaned sum
  the float conversion of line 62 accepts (below \<open>2 ^ 1024 - 2 ^ 970\<close> in magnitude).
\<close>

theorem reconcile_partitions:
  "(list_all utxo_entry U \<longrightarrow>
    \<not> float_overflow (sum_list (map entry_value (filter (\<lambda>u. \<not> is_owned I u) U))) \<longrightarrow>
    (\<exists>r. reconcile I U = Inr r)) \<and>
   (\<forall>owned orphaned rep. reconcile I U = Inr (owned, orphaned, rep) \<longrightarrow>
      owned = filter (is_owned I) U \<and>
      orphaned = filter (\<lambda>u. \<not> is_owned I u) U \<and>
      mset owned + mset orphaned = mset U \<and>
      set owned \<inter> set orphaned = {} \<and>
      total_utxos rep = owned_utxos rep + orphaned_utxos rep \<and>
      total_utxos rep = length U \<and>
      owned_utxos rep = length owned \<and>
      orphaned_utxos rep = length orphaned \<and>
      orphaned_value_credits rep = sum_list (map entry_value orphaned))"
proof (intro conjI allI impI)
  assume "list_all utxo_entry U"
    and fits: "\<not> float_overflow (sum_list (map entry_value (filter (\<lambda>u. \<not> is_owned I u) U)))"
  from partition_utxos_total[OF this(1), of I "([], [], 0)"]
  obtain ow orph c where p: "partition_utxos I U ([], [], 0) = Inr (ow, orph, c)"
    by (metis prod_cases3)
  from partition_utxos_acc[OF p] fits have "\<not> float_overflow c" by simp
  with p show "\<exists>r. reconcile I U = Inr r"
    by (simp add: reconcile_def make_report_def)
next
  fix owned orphaned rep
  assume r: "reconcile I U = Inr (owned, orphaned, rep)"
  then obtain c where p: "partition_utxos I U ([], [], 0) = Inr (owned, orphaned, c)"
    and rep: "rep = \<lparr> total_utxos = length owned + length orphaned, owned_utxos = length owned,
                  orphaned_utxos = length orphaned, orphaned_value_credits = c \<rparr>"
    by (auto simp: reconcile_Inr_iff)
  from partition_utxos_acc[OF p]
  have ow: "owned = filter (is_owned I) U"
    and orph: "orphaned = filter (\<lambda>u. \<not> is_owned I u) U"
    and c: "c = sum_list (map entry_value orphaned)"
    by simp_all
  show "owned = filter (is_owned I) U" by (rule ow)
  show "orphaned = filter (\<lambda>u. \<not> is_owned I u) U" by (rule orph)
  show "mset owned + mset orphaned = mset U"
    unfolding ow orph by simp
  show "set owned \<inter> set orphaned = {}"
    unfolding ow orph by auto
  show "total_utxos rep = owned_utxos rep + orphaned_utxos rep"
    by (simp add: rep)
  have "length owned + length orphaned = length U"
    unfolding ow orph by (rule sum_length_filter_compl)
  then show "total_utxos rep = length U"
    by (simp add: rep)
  show "owned_utxos rep = length owned" by (simp add: rep)
  show "orphaned_utxos rep = length orphaned" by (simp add: rep)
  show "orphaned_value_credits rep = sum_list (map entry_value orphaned)"
    by (simp add: rep c)
qed

theorem reconcile_partitions_witness:
  "list_all utxo_entry [utxo_a, utxo_b] \<and>
   reconcile {IStr ''addrA''} [utxo_a, utxo_b] =
     Inr ([utxo_a], [utxo_b],
          \<lparr>total_utxos = 2, owned_utxos = 1, orphaned_utxos = 1, orphaned_value_credits = 300\<rparr>) \<and>
   mset [utxo_a] + mset [utxo_b] = mset [utxo_a, utxo_b] \<and>
   set [utxo_a] \<inter> set [utxo_b] = {} \<and>
   sum_list (map entry_value [utxo_b]) = 300"
proof -
  have wf: "list_all utxo_entry [utxo_a, utxo_b]"
    by (simp add: utxo_a_def utxo_b_def)
  have run: "reconcile {IStr ''addrA''} [utxo_a, utxo_b] =
     Inr ([utxo_a], [utxo_b],
          \<lparr>total_utxos = 2, owned_utxos = 1, orphaned_utxos = 1, orphaned_value_credits = 300\<rparr>)"
    by (simp add: reconcile_def make_report_def float_overflow_def utxo_a_def utxo_b_def)
  note facts = reconcile_partitions[of "[utxo_a, utxo_b]" "{IStr ''addrA''}", THEN conjunct2, rule_format, OF run]
  have k: "mset [utxo_a] + mset [utxo_b] = mset [utxo_a, utxo_b] \<and>
           set [utxo_a] \<inter> set [utxo_b] = {} \<and>
           (300::int) = sum_list (map entry_value [utxo_b])"
    using facts by (elim conjE) (intro conjI; simp)
  show ?thesis using wf run k by (intro conjI; simp)
qed

subsection \<open>An entry without a value\<close>

lemma partition_utxos_append:
  "partition_utxos ids (xs @ ys) acc =
     (case partition_utxos ids xs acc of Inl e \<Rightarrow> Inl e | Inr acc' \<Rightarrow> partition_utxos ids ys acc')"
proof (induction xs arbitrary: acc)
  case Nil
  show ?case by (cases acc) auto
next
  case (Cons u us)
  obtain ow orph c where acc: "acc = (ow, orph, c)" by (cases acc) auto
  show ?case unfolding acc
    by (simp add: Cons.IH split: sum.splits)
qed

lemma py_iadd_shift: "py_iadd c v = Inr c' \<Longrightarrow> py_iadd c2 v = Inr (c2 + (c' - c))"
  by (cases v) auto

lemma partition_utxos_shift:
  "partition_utxos ids us (ow, orph, c) = Inr r \<Longrightarrow>
   \<exists>r2. partition_utxos ids us (ow2, orph2, c2) = Inr r2"
proof (induction us arbitrary: ow orph c ow2 orph2 c2)
  case Nil
  show ?case by simp
next
  case (Cons u us)
  from Cons.prems obtain a where a: "py_get u ''address'' (JStr '''') = Inr a"
    by (cases "py_get u ''address'' (JStr '''')") simp_all
  from Cons.prems a obtain h where h: "py_hashable a = Inr h"
    by (cases "py_hashable a") simp_all
  show ?case
  proof (cases "h \<in> ids")
    case True
    with Cons.prems a h have "partition_utxos ids us (ow @ [u], orph, c) = Inr r" by simp
    from Cons.IH[OF this, of "ow2 @ [u]" orph2 c2] a h True show ?thesis by simp
  next
    case False
    from Cons.prems a h False obtain v where v: "py_get u ''value_credits'' (JInt 0) = Inr v"
      by (cases "py_get u ''value_credits'' (JInt 0)") simp_all
    from Cons.prems a h False v obtain c' where c': "py_iadd c v = Inr c'"
      by (cases "py_iadd c v") simp_all
    from Cons.prems a h False v c'
    have "partition_utxos ids us (ow, orph @ [u], c') = Inr r" by simp
    from Cons.IH[OF this, of ow2 "orph2 @ [u]" "c2 + (c' - c)"] a h False v py_iadd_shift[OF c', of c2]
    show ?thesis by simp
  qed
qed

lemma orphan_step:
  assumes "lacks_key ''value_credits'' e" and "entry_ident e = Some h" and "h \<notin> I"
  shows "partition_utxos I (e # ys) (ow, orph, c) = partition_utxos I ys (ow, orph @ [e], c)"
proof -
  from assms(1) obtain kvs where e: "e = JObj kvs" and none: "map_of kvs ''value_credits'' = None"
    by (cases e) (auto simp: lacks_key_def)
  from assms(2) obtain a where a: "py_get e ''address'' (JStr '''') = Inr a" and h: "py_hashable a = Inr h"
    by (auto simp: entry_ident_def split: sum.splits)
  have v: "py_get e ''value_credits'' (JInt 0) = Inr (JInt 0)"
    by (simp add: e none)
  show ?thesis using a h v assms(3) by simp
qed

text \<open>
  C10. An entry that is classified orphaned and has no \<^verbatim>\<open>value_credits\<close> key counts as 0:
  the reconciliation of a list with such an entry in it returns whenever the reconciliation
  of the list without it does, with the same orphaned credits and the same owned entries;
  the entry is among the orphaned ones and the two counts it belongs to are one higher.
\<close>

theorem missing_value_counts_zero:
  assumes "lacks_key ''value_credits'' e" and "entry_ident e = Some h" and "h \<notin> I"
    and "reconcile I (xs @ ys) = Inr (owned, orphaned, rep)"
  shows "entry_value e = 0 \<and>
     (\<exists>orphaned'.
        reconcile I (xs @ e # ys) =
          Inr (owned, orphaned',
               rep\<lparr>total_utxos := Suc (total_utxos rep), orphaned_utxos := Suc (orphaned_utxos rep)\<rparr>) \<and>
        mset orphaned' = add_mset e (mset orphaned))"
proof -
  have notown: "\<not> is_owned I e"
    using assms(2,3) by (simp add: is_owned_def)
  have val: "entry_value e = 0"
    using assms(1) by (cases e) (auto simp: lacks_key_def entry_value_def)
  from assms(4) obtain c where p: "partition_utxos I (xs @ ys) ([], [], 0) = Inr (owned, orphaned, c)"
    and fits: "\<not> float_overflow c"
    and rep: "rep = \<lparr> total_utxos = length owned + length orphaned, owned_utxos = length owned,
                  orphaned_utxos = length orphaned, orphaned_value_credits = c \<rparr>"
    by (auto simp: reconcile_Inr_iff)
  from p obtain ow1 orph1 c1 where
    p1: "partition_utxos I xs ([], [], 0) = Inr (ow1, orph1, c1)"
    and p2: "partition_utxos I ys (ow1, orph1, c1) = Inr (owned, orphaned, c)"
    by (auto simp: partition_utxos_append split: sum.splits)
  from partition_utxos_shift[OF p2, of ow1 "orph1 @ [e]" c1]
  obtain ow' orph' c' where
    p3: "partition_utxos I ys (ow1, orph1 @ [e], c1) = Inr (ow', orph', c')"
    by (metis prod_cases3)
  note a2 = partition_utxos_acc[OF p2]
  note a3 = partition_utxos_acc[OF p3]
  have ow: "ow' = owned" and c: "c' = c" using a2 a3 by simp_all
  have orph: "mset orph' = add_mset e (mset orphaned)" using a2 a3 by simp
  have len: "length orph' = Suc (length orphaned)"
    using orph by (metis size_mset size_add_mset)
  have "partition_utxos I (xs @ e # ys) ([], [], 0) = partition_utxos I (e # ys) (ow1, orph1, c1)"
    using p1 by (simp add: partition_utxos_append del: partition_utxos.simps)
  also have "\<dots> = partition_utxos I ys (ow1, orph1 @ [e], c1)"
    by (rule orphan_step[OF assms(1,2,3)])
  finally have "partition_utxos I (xs @ e # ys) ([], [], 0) = Inr (owned, orph', c)"
    using p3 ow c by simp
  then have "reconcile I (xs @ e # ys) =
      Inr (owned, orph',
           rep\<lparr>total_utxos := Suc (total_utxos rep), orphaned_utxos := Suc (orphaned_utxos rep)\<rparr>)"
    using fits by (simp add: reconcile_def rep make_report_def len)
  with val orph show ?thesis by blast
qed

theorem missing_value_counts_zero_witness:
  "lacks_key ''value_credits'' utxo_c \<and> entry_ident utxo_c = Some (IStr ''addrC'') \<and>
   IStr ''addrC'' \<notin> {IStr ''addrA''} \<and>
   reconcile {IStr ''addrA''} ([utxo_a] @ [utxo_b]) =
     Inr ([utxo_a], [utxo_b],
          \<lparr>total_utxos = 2, owned_utxos = 1, orphaned_utxos = 1, orphaned_value_credits = 300\<rparr>) \<and>
   entry_value utxo_c = 0 \<and>
   (\<exists>orphaned'. reconcile {IStr ''addrA''} ([utxo_a] @ utxo_c # [utxo_b]) =
     Inr ([utxo_a], orphaned',
          \<lparr>total_utxos = 3, owned_utxos = 1, orphaned_utxos = 2, orphaned_value_credits = 300\<rparr>) \<and>
     mset orphaned' = add_mset utxo_c (mset [utxo_b]))"
proof -
  have h1: "lacks_key ''value_credits'' utxo_c" by (simp add: lacks_key_def utxo_c_def)
  have h2: "entry_ident utxo_c = Some (IStr ''addrC'')" by (simp add: entry_ident_def utxo_c_def)
  have h3: "IStr ''addrC'' \<notin> {IStr ''addrA''}" by simp
  have h4: "reconcile {IStr ''addrA''} ([utxo_a] @ [utxo_b]) =
     Inr ([utxo_a], [utxo_b],
          \<lparr>total_utxos = 2, owned_utxos = 1, orphaned_utxos = 1, orphaned_value_credits = 300\<rparr>)"
    by (simp add: reconcile_def make_report_def float_overflow_def utxo_a_def utxo_b_def)
  from missing_value_counts_zero[OF h1 h2 h3 h4]
  have c: "entry_value utxo_c = 0 \<and>
   (\<exists>orphaned'. reconcile {IStr ''addrA''} ([utxo_a] @ utxo_c # [utxo_b]) =
     Inr ([utxo_a], orphaned',
          \<lparr>total_utxos = 3, owned_utxos = 1, orphaned_utxos = 2, orphaned_value_credits = 300\<rparr>) \<and>
     mset orphaned' = add_mset utxo_c (mset [utxo_b]))"
    by (simp add: numeral_2_eq_2 numeral_3_eq_3)
  from h1 h2 h3 h4 c show ?thesis by (intro conjI) (erule conjunct1 conjunct2 | assumption)+
qed

section \<open>The identifier index\<close>

lemma py_hashable_error: "py_hashable v = Inl e \<Longrightarrow> e = TypeError"
  by (cases v) auto

text \<open>What the two tests and additions of lines 34 to 37 do with any JSON object.\<close>

lemma add_wallet_dict:
  "add_wallet (JObj kvs) ids =
     (if field_hashable kvs ''public_key'' \<and> field_hashable kvs ''address''
      then Inr (ids \<union> field_idents kvs ''public_key'' \<union> field_idents kvs ''address'')
      else Inl TypeError)"
  by (auto simp: add_wallet_def add_identifier_def field_hashable_def field_idents_def
           split: option.splits sum.splits bool.splits dest: py_hashable_error)

lemma add_identifier_string:
  assumes "string_or_absent kvs k"
  shows "add_identifier k (JObj kvs) ids = Inr (ids \<union> field_string kvs k)"
  using assms
  by (auto simp: add_identifier_def string_or_absent_def field_string_def
           split: option.splits json.splits)

text \<open>
  C9, as the code has it. For a wallet record whose \<^verbatim>\<open>public_key\<close> and
  \<^verbatim>\<open>address\<close>, when present, are strings, the builder adds the public key exactly when
  the key is present and the address exactly when the key is present. There is no test
  for emptiness: a record that carries an empty-string public key or address puts the
  empty string into the identifier set.
\<close>

theorem add_wallet_record:
  assumes "wallet_record (JObj kvs)"
  shows "add_wallet (JObj kvs) ids =
           Inr (ids \<union> field_string kvs ''public_key'' \<union> field_string kvs ''address'') \<and>
         (map_of kvs ''public_key'' = Some (JStr '''') \<or> map_of kvs ''address'' = Some (JStr '''')
            \<longrightarrow> IStr '''' \<in> ids \<union> field_string kvs ''public_key'' \<union> field_string kvs ''address'')"
proof -
  from assms have pk: "string_or_absent kvs ''public_key''" and ad: "string_or_absent kvs ''address''"
    by simp_all
  have "add_wallet (JObj kvs) ids =
           Inr (ids \<union> field_string kvs ''public_key'' \<union> field_string kvs ''address'')"
    by (simp add: add_wallet_def add_identifier_string[OF pk] add_identifier_string[OF ad])
  moreover have "map_of kvs ''public_key'' = Some (JStr '''') \<or> map_of kvs ''address'' = Some (JStr '''')
            \<longrightarrow> IStr '''' \<in> ids \<union> field_string kvs ''public_key'' \<union> field_string kvs ''address''"
    by (auto simp: field_string_def)
  ultimately show ?thesis by (rule conjI)
qed

theorem add_wallet_record_witness:
  "wallet_record wallet_empty_key \<and>
   add_wallet wallet_empty_key {} = Inr {IStr '''', IStr ''addrA''} \<and>
   IStr '''' \<in> {IStr '''', IStr ''addrA''}"
proof -
  have h: "wallet_record (JObj [(''public_key'', JStr ''''), (''address'', JStr ''addrA'')])"
    by (simp add: string_or_absent_def)
  from add_wallet_record[OF h, of "{}"] h show ?thesis
    by (auto simp: wallet_empty_key_def field_string_def)
qed

text \<open>
  C9, as stated, fails: a record whose \<^verbatim>\<open>address\<close> is the empty string puts the empty
  string into the identifier set.
\<close>

theorem empty_address_is_indexed:
  "add_wallet (JObj [(''public_key'', JStr ''pkA''), (''address'', JStr '''')]) {} =
     Inr {IStr '''', IStr ''pkA''}"
  by (simp add: add_wallet_def add_identifier_def)

section \<open>The run and the file system\<close>

subsection \<open>Everything before the write only reads\<close>

lemma quiet_Nil [simp]: "quiet fs []"
  by (simp add: quiet_def)

lemma quiet_append [simp]: "quiet fs (xs @ ys) \<longleftrightarrow> quiet fs xs \<and> quiet fs ys"
  by (simp add: quiet_def)

lemma quiet_Cons [simp]: "quiet fs (x # xs) \<longleftrightarrow> read_only (fst x) \<and> snd x = fs \<and> quiet fs xs"
  by (simp add: quiet_def)

lemma quiet_single: "quiet fs [(e, s)] \<longleftrightarrow> read_only e \<and> s = fs"
  by (simp add: quiet_def)

lemma files_observe [simp]: "files (observe e w) = files w"
  by (simp add: observe_def)

lemma trace_observe [simp]: "trace (observe e w) = trace w @ [(e, files w)]"
  by (simp add: observe_def)

lemma files_commit [simp]: "files (commit e fs' w) = fs'"
  by (simp add: commit_def)

lemma trace_commit [simp]: "trace (commit e fs' w) = trace w @ [(e, fs')]"
  by (simp add: commit_def)

lemma open_read_files [simp]: "files (snd (open_read p w)) = files w"
  by (simp add: open_read_def)

lemma open_read_trace [simp]: "trace (snd (open_read p w)) = trace w @ [(EvOpenRead p, files w)]"
  by (simp add: open_read_def)

lemma open_read_Inr:
  "fst (open_read p w) = Inr b \<longleftrightarrow> files w p = Some (File b)"
  by (auto simp: open_read_def split: option.splits node.splits)

lemma open_read_cong:
  "files w2 p = files w p \<Longrightarrow> fst (open_read p w2) = fst (open_read p w)"
  by (simp add: open_read_def)

lemma read_wallets_quiet:
  "read_wallets cd d names ids w = (r, w') \<Longrightarrow>
   files w' = files w \<and> (\<exists>evs. trace w' = trace w @ evs \<and> quiet (files w) evs)"
proof (induction names arbitrary: ids w)
  case Nil
  then show ?case by auto
next
  case (Cons n names)
  show ?case
  proof (cases "is_wallet_name n")
    case False
    with Cons.prems have "read_wallets cd d names ids w = (r, w')" by simp
    from Cons.IH[OF this] show ?thesis .
  next
    case True
    obtain rb w1 where o: "open_read (d @ [n]) w = (rb, w1)" by (cases "open_read (d @ [n]) w")
    have w1: "files w1 = files w" "trace w1 = trace w @ [(EvOpenRead (d @ [n]), files w)]"
      using open_read_files[of "d @ [n]" w] open_read_trace[of "d @ [n]" w] o by simp_all
    show ?thesis
    proof (cases "\<exists>ids'. read_wallets cd d names ids' w1 = (r, w')")
      case True
      then obtain ids' where "read_wallets cd d names ids' w1 = (r, w')" by blast
      from Cons.IH[OF this] w1 show ?thesis by auto
    next
      case False
      with Cons.prems True o have "w' = w1"
        by (auto split: sum.splits)
      with w1 show ?thesis by auto
    qed
  qed
qed

lemma read_wallets_cong:
  "(\<And>n. n \<in> set names \<Longrightarrow> files w2 (d @ [n]) = files w (d @ [n])) \<Longrightarrow>
   fst (read_wallets cd d names ids w2) = fst (read_wallets cd d names ids w)"
proof (induction names arbitrary: ids w w2)
  case Nil
  show ?case by simp
next
  case (Cons n names)
  have rest: "\<And>ids' v v2. files v2 = files w2 \<Longrightarrow> files v = files w \<Longrightarrow>
      fst (read_wallets cd d names ids' v2) = fst (read_wallets cd d names ids' v)"
    by (rule Cons.IH) (simp add: Cons.prems)
  show ?case
  proof (cases "is_wallet_name n")
    case False
    then show ?thesis using rest[of w2 w ids] by simp
  next
    case True
    obtain rb w1 where o: "open_read (d @ [n]) w = (rb, w1)" by (cases "open_read (d @ [n]) w")
    obtain rb2 w12 where o2: "open_read (d @ [n]) w2 = (rb2, w12)" by (cases "open_read (d @ [n]) w2")
    have eq: "rb2 = rb"
      using open_read_cong[of w2 "d @ [n]" w] Cons.prems[of n] o o2 by simp
    have f1: "files w1 = files w" using open_read_files[of "d @ [n]" w] o by simp
    have f2: "files w12 = files w2" using open_read_files[of "d @ [n]" w2] o2 by simp
    show ?thesis using True o o2 eq rest[OF f2 f1]
      by (simp split: sum.splits)
  qed
qed


lemma read_wallets_same_files:
  "files w2 = files w \<Longrightarrow>
   fst (read_wallets cd d names ids w2) = fst (read_wallets cd d names ids w)"
  by (rule read_wallets_cong) simp

lemma load_and_reconcile_fst:
  "fst (load_and_reconcile cd u d w) =
     (case files w u of
        None \<Rightarrow> Inl FileNotFoundError
      | Some (Dir ns) \<Rightarrow> Inl IsADirectoryError
      | Some (File b) \<Rightarrow>
          (case loads cd b of
             None \<Rightarrow> Inl JSONDecodeError
           | Some utxos \<Rightarrow>
               (case files w d of
                  None \<Rightarrow> Inl FileNotFoundError
                | Some (File x) \<Rightarrow> Inl NotADirectoryError
                | Some (Dir names) \<Rightarrow>
                    (case fst (read_wallets cd d names {} w) of
                       Inl e \<Rightarrow> Inl e
                     | Inr ids \<Rightarrow>
                         (case py_iter utxos of
                            Inl e \<Rightarrow> Inl e
                          | Inr entries \<Rightarrow> reconcile ids entries)))))"
proof -
  let ?w3 = "observe (EvListdir d) (observe (EvOpenRead u) (observe (EvExists u) w))"
  have same: "\<And>names. fst (read_wallets cd d names {} ?w3) = fst (read_wallets cd d names {} w)"
    by (rule read_wallets_same_files) simp
  have step: "\<And>names utxos.
      fst (case read_wallets cd d names {} ?w3 of
             (Inl e, w4) \<Rightarrow> (Inl e, w4)
           | (Inr wallet_identifiers, w4) \<Rightarrow>
               (case py_iter utxos of
                  Inl e \<Rightarrow> (Inl e, w4)
                | Inr entries \<Rightarrow> (reconcile wallet_identifiers entries, w4))) =
      (case fst (read_wallets cd d names {} w) of
         Inl e \<Rightarrow> Inl e
       | Inr ids \<Rightarrow> (case py_iter utxos of Inl e \<Rightarrow> Inl e | Inr entries \<Rightarrow> reconcile ids entries))"
  proof -
    fix names utxos
    obtain r4 w4 where r: "read_wallets cd d names {} ?w3 = (r4, w4)"
      by (cases "read_wallets cd d names {} ?w3")
    have "fst (read_wallets cd d names {} w) = r4" using same[of names] r by simp
    then show "fst (case read_wallets cd d names {} ?w3 of
             (Inl e, w4) \<Rightarrow> (Inl e, w4)
           | (Inr wallet_identifiers, w4) \<Rightarrow>
               (case py_iter utxos of
                  Inl e \<Rightarrow> (Inl e, w4)
                | Inr entries \<Rightarrow> (reconcile wallet_identifiers entries, w4))) =
      (case fst (read_wallets cd d names {} w) of
         Inl e \<Rightarrow> Inl e
       | Inr ids \<Rightarrow> (case py_iter utxos of Inl e \<Rightarrow> Inl e | Inr entries \<Rightarrow> reconcile ids entries))"
      by (simp add: r split: sum.splits)
  qed
  show ?thesis
    unfolding load_and_reconcile_def path_exists_def open_read_def listdir_def json_load_def
    by (auto simp: step split: option.splits node.splits)
qed

lemma load_and_reconcile_quiet:
  "load_and_reconcile cd u d w = (r, w') \<Longrightarrow>
   files w' = files w \<and> (\<exists>evs. trace w' = trace w @ evs \<and> quiet (files w) evs)"
proof -
  assume a: "load_and_reconcile cd u d w = (r, w')"
  let ?w1 = "observe (EvExists u) w"
  let ?w2 = "observe (EvOpenRead u) ?w1"
  let ?w3 = "observe (EvListdir d) ?w2"
  have q1: "files ?w1 = files w \<and> (\<exists>evs. trace ?w1 = trace w @ evs \<and> quiet (files w) evs)" by simp
  have q2: "files ?w2 = files w \<and> (\<exists>evs. trace ?w2 = trace w @ evs \<and> quiet (files w) evs)" by simp
  have q3: "files ?w3 = files w \<and> (\<exists>evs. trace ?w3 = trace w @ evs \<and> quiet (files w) evs)" by simp
  have q4: "\<And>names r4 w4. read_wallets cd d names {} ?w3 = (r4, w4) \<Longrightarrow>
      files w4 = files w \<and> (\<exists>evs. trace w4 = trace w @ evs \<and> quiet (files w) evs)"
  proof -
    fix names r4 w4
    assume "read_wallets cd d names {} ?w3 = (r4, w4)"
    from read_wallets_quiet[OF this] obtain evs where
      "files w4 = files w" "trace w4 = trace ?w3 @ evs" "quiet (files w) evs" by auto
    then show "files w4 = files w \<and> (\<exists>evs. trace w4 = trace w @ evs \<and> quiet (files w) evs)"
      by simp
  qed
  have "w' = ?w1 \<or> w' = ?w2 \<or> w' = ?w3 \<or> (\<exists>names r4. read_wallets cd d names {} ?w3 = (r4, w'))"
    using a unfolding load_and_reconcile_def path_exists_def open_read_def listdir_def json_load_def
    by (auto split: option.splits node.splits sum.splits prod.splits if_splits bool.splits)
  then show ?thesis using q1 q2 q3 q4 by metis
qed

lemma load_and_reconcile_cong:
  assumes "files w2 u = files w u" and "files w2 d = files w d"
    and "\<And>n. files w2 (d @ [n]) = files w (d @ [n])"
  shows "fst (load_and_reconcile cd u d w2) = fst (load_and_reconcile cd u d w)"
proof -
  have "\<And>names. fst (read_wallets cd d names {} w2) = fst (read_wallets cd d names {} w)"
    by (rule read_wallets_cong) (rule assms(3))
  then show ?thesis
    unfolding load_and_reconcile_fst assms(1,2)
    by (simp cong: option.case_cong node.case_cong)
qed

subsection \<open>Dry run\<close>

lemma clean_dry_run:
  "clean_orphaned_utxos cd now u d True w =
     (case load_and_reconcile cd u d w of
        (Inl e, w4) \<Rightarrow> (Inl e, w4)
      | (Inr (owned, orphaned, rep), w4) \<Rightarrow> (Inr rep, w4))"
  by (simp add: clean_orphaned_utxos_def split: prod.splits sum.splits)

lemma clean_dry_run_snd:
  "snd (clean_orphaned_utxos cd now u d True w) = snd (load_and_reconcile cd u d w)"
  by (simp add: clean_dry_run split: prod.splits sum.splits)

text \<open>
  C3. A dry run never changes the file system, whatever the store and the wallet
  directory hold and whether it returns a report or raises: the files after the call are
  the files before it (so the store's bytes are the same and no backup file appears), and
  every event the call adds to the trace is a read-only one.
\<close>

theorem dry_run_never_writes:
  "files (snd (clean_orphaned_utxos cd now u d True w)) = files w \<and>
   (\<exists>evs. trace (snd (clean_orphaned_utxos cd now u d True w)) = trace w @ evs \<and>
          quiet (files w) evs)"
proof -
  obtain r w' where l: "load_and_reconcile cd u d w = (r, w')"
    by (cases "load_and_reconcile cd u d w")
  from load_and_reconcile_quiet[OF l] show ?thesis
    by (simp add: clean_dry_run_snd l)
qed

subsection \<open>A wallet directory that does not exist\<close>

lemma clean_error:
  "fst (load_and_reconcile cd u d w) = Inl e \<Longrightarrow>
   clean_orphaned_utxos cd now u d dry w = (Inl e, snd (load_and_reconcile cd u d w))"
  by (cases "load_and_reconcile cd u d w") (simp add: clean_orphaned_utxos_def)

lemma missing_wallets_dir_run:
  assumes "files w d = None" and "files w u = Some (File b)" and "loads cd b = Some v"
  shows "clean_orphaned_utxos cd now u d dry w =
     (Inl FileNotFoundError,
      w\<lparr>trace := trace w @
          [(EvExists u, files w), (EvOpenRead u, files w), (EvListdir d, files w)]\<rparr>)"
proof -
  have "load_and_reconcile cd u d w =
     (Inl FileNotFoundError,
      w\<lparr>trace := trace w @
          [(EvExists u, files w), (EvOpenRead u, files w), (EvListdir d, files w)]\<rparr>)"
    using assms
    by (simp add: load_and_reconcile_def path_exists_def open_read_def listdir_def
        json_load_def observe_def)
  then show ?thesis by (simp add: clean_orphaned_utxos_def)
qed

text \<open>
  C7, as the code has it. The store is read first (lines 17 to 22), the wallet directory is
  listed after it (line 28). When the wallet directory does not exist and the store is a
  file that decodes, the run, in either mode, raises the FileNotFoundError of
  \<^verbatim>\<open>os.listdir\<close> after it has tested, opened and read the store; it writes nothing.
\<close>

theorem missing_wallets_dir:
  assumes "files w d = None" and "files w u = Some (File b)" and "loads cd b = Some v"
  shows "clean_orphaned_utxos cd now u d dry w =
     (Inl FileNotFoundError,
      w\<lparr>trace := trace w @
          [(EvExists u, files w), (EvOpenRead u, files w), (EvListdir d, files w)]\<rparr>)"
  using assms by (rule missing_wallets_dir_run)

lemma store_only_facts:
  "files store_only_world wallets_path = None"
  "files store_only_world store_path = Some (File (Some (JArr [utxo_a, utxo_b])))"
  "loads decoded (Some (JArr [utxo_a, utxo_b])) = Some (JArr [utxo_a, utxo_b])"
  by (simp_all add: store_only_world_def wallets_path_def store_path_def decoded_def)

theorem missing_wallets_dir_witness:
  "files store_only_world wallets_path = None \<and>
   files store_only_world store_path = Some (File (Some (JArr [utxo_a, utxo_b]))) \<and>
   loads decoded (Some (JArr [utxo_a, utxo_b])) = Some (JArr [utxo_a, utxo_b]) \<and>
   fst (clean_orphaned_utxos decoded noon store_path wallets_path False store_only_world) =
     Inl FileNotFoundError"
  using store_only_facts
    missing_wallets_dir[OF store_only_facts, of noon False]
  by simp

text \<open>
  C7, as stated, fails: with a store and no wallet directory the run has opened and read
  the store before the listing of the wallet directory raises.
\<close>

theorem store_read_before_wallets_dir:
  "fst (clean_orphaned_utxos decoded noon store_path wallets_path True store_only_world) =
     Inl FileNotFoundError \<and>
   map fst (trace (snd (clean_orphaned_utxos decoded noon store_path wallets_path True
                          store_only_world))) =
     [EvExists store_path, EvOpenRead store_path, EvListdir wallets_path] \<and>
   fst (open_read store_path store_only_world) = Inr (Some (JArr [utxo_a, utxo_b]))"
  using missing_wallets_dir_run[OF store_only_facts, of noon True]
  by (simp add: open_read_Inr store_only_facts store_only_world_def)

subsection \<open>A wallet file that does not decode\<close>

lemma read_wallets_undecodable:
  assumes "n \<in> set names" and "is_wallet_name n"
    and "files w (d @ [n]) = Some (File b)" and "loads cd b = None"
  shows "\<exists>e. fst (read_wallets cd d names ids w) = Inl e"
  using assms(1,3)
proof (induction names arbitrary: ids w)
  case Nil
  then show ?case by simp
next
  case (Cons m names)
  obtain rb w1 where o: "open_read (d @ [m]) w = (rb, w1)" by (cases "open_read (d @ [m]) w")
  have f1: "files w1 = files w" using open_read_files[of "d @ [m]" w] o by simp
  show ?case
  proof (cases "m = n")
    case True
    have "rb = Inr b" using o open_read_Inr[of "d @ [n]" w b] Cons.prems(2) True by simp
    then show ?thesis using True o assms(2,4) by (simp add: json_load_def)
  next
    case False
    with Cons.prems have n: "n \<in> set names" by simp
    have ih: "\<And>ids' v. files v = files w \<Longrightarrow> \<exists>e. fst (read_wallets cd d names ids' v) = Inl e"
      by (rule Cons.IH[OF n]) (simp add: Cons.prems(2))
    show ?thesis using o ih[OF f1] ih[of w]
      by (auto split: sum.splits)
  qed
qed

lemma undecodable_wallet_run:
  assumes "files w d = Some (Dir names)" and "n \<in> set names" and "is_wallet_name n"
    and "files w (d @ [n]) = Some (File b)" and "loads cd b = None"
  shows "\<exists>e w'. clean_orphaned_utxos cd now u d dry w = (Inl e, w') \<and> files w' = files w"
proof -
  from read_wallets_undecodable[OF assms(2,3,4,5)]
  obtain e0 where r: "fst (read_wallets cd d names {} w) = Inl e0" by blast
  have "\<exists>e. fst (load_and_reconcile cd u d w) = Inl e"
    unfolding load_and_reconcile_fst
    by (simp add: assms(1) r split: option.splits node.splits)
  then obtain e where e: "fst (load_and_reconcile cd u d w) = Inl e" by blast
  obtain r4 w4 where l: "load_and_reconcile cd u d w = (r4, w4)"
    by (cases "load_and_reconcile cd u d w")
  from load_and_reconcile_quiet[OF l] have "files w4 = files w" by simp
  with clean_error[OF e, of now dry] l show ?thesis by simp
qed

lemma read_wallets_append:
  "fst (read_wallets cd d (xs @ ys) ids w) =
     (case fst (read_wallets cd d xs ids w) of
        Inl e \<Rightarrow> Inl e
      | Inr ids' \<Rightarrow> fst (read_wallets cd d ys ids' w))"
proof (induction xs arbitrary: ids w)
  case Nil
  show ?case by simp
next
  case (Cons x xs)
  show ?case
  proof (cases "is_wallet_name x")
    case False
    then show ?thesis using Cons.IH[of ids w] by simp
  next
    case True
    obtain rb w1 where o: "open_read (d @ [x]) w = (rb, w1)" by (cases "open_read (d @ [x]) w")
    have f1: "files w1 = files w" using open_read_files[of "d @ [x]" w] o by simp
    have same: "\<And>ids'. fst (read_wallets cd d ys ids' w1) = fst (read_wallets cd d ys ids' w)"
      by (rule read_wallets_same_files[OF f1])
    show ?thesis using True o Cons.IH[of _ w1]
      by (simp add: same split: sum.splits)
  qed
qed

lemma read_wallets_first_undecodable:
  assumes "is_wallet_name n" and "files w (d @ [n]) = Some (File b)" and "loads cd b = None"
  shows "fst (read_wallets cd d (n # rest) ids w) = Inl JSONDecodeError"
  using assms by (simp add: open_read_def json_load_def)

lemma undecodable_wallet_error:
  assumes "files w d = Some (Dir (before @ n # rest))" and "is_wallet_name n"
    and "files w (d @ [n]) = Some (File b)" and "loads cd b = None"
    and "files w u = Some (File bu)" and "loads cd bu = Some utxos"
    and "fst (read_wallets cd d before {} w) = Inr ids"
  shows "fst (clean_orphaned_utxos cd now u d dry w) = Inl JSONDecodeError"
proof -
  have "fst (read_wallets cd d (before @ n # rest) {} w) = Inl JSONDecodeError"
    by (simp add: read_wallets_append assms(7) read_wallets_first_undecodable[OF assms(2,3,4)]
        del: read_wallets.simps)
  then have "fst (load_and_reconcile cd u d w) = Inl JSONDecodeError"
    unfolding load_and_reconcile_fst by (simp add: assms(1,5,6))
  from clean_error[OF this] show ?thesis by simp
qed

text \<open>
  C8, as the code has it. The loop over the wallet directory has no exception handler:
  when the directory lists a file whose name matches \<^verbatim>\<open>wallet_*.json\<close> and whose bytes
  \<^verbatim>\<open>json.load\<close> rejects, the run, in either mode, ends with an error and without a
  report, and it has written nothing. The error is the decoding error itself whenever the
  store has been read and decoded and the files listed before the offending one have been
  read without error.
\<close>

theorem undecodable_wallet_aborts:
  assumes "files w d = Some (Dir names)" and "n \<in> set names" and "is_wallet_name n"
    and "files w (d @ [n]) = Some (File b)" and "loads cd b = None"
  shows "(\<exists>e w'. clean_orphaned_utxos cd now u d dry w = (Inl e, w') \<and> files w' = files w) \<and>
         (\<forall>bu utxos before rest ids.
            files w u = Some (File bu) \<and> loads cd bu = Some utxos \<and>
            names = before @ n # rest \<and> fst (read_wallets cd d before {} w) = Inr ids \<longrightarrow>
            fst (clean_orphaned_utxos cd now u d dry w) = Inl JSONDecodeError)"
proof (rule conjI)
  show "\<exists>e w'. clean_orphaned_utxos cd now u d dry w = (Inl e, w') \<and> files w' = files w"
    using assms by (rule undecodable_wallet_run)
next
  show "\<forall>bu utxos before rest ids.
            files w u = Some (File bu) \<and> loads cd bu = Some utxos \<and>
            names = before @ n # rest \<and> fst (read_wallets cd d before {} w) = Inr ids \<longrightarrow>
            fst (clean_orphaned_utxos cd now u d dry w) = Inl JSONDecodeError"
  proof (intro allI impI, elim conjE)
    fix bu utxos before rest ids
    assume "files w u = Some (File bu)" "loads cd bu = Some utxos"
      "names = before @ n # rest" "fst (read_wallets cd d before {} w) = Inr ids"
    with assms(1,3,4,5) show "fst (clean_orphaned_utxos cd now u d dry w) = Inl JSONDecodeError"
      by (intro undecodable_wallet_error) auto
  qed
qed

lemma bad_wallet_facts:
  "files bad_wallet_world wallets_path =
     Some (Dir [''wallet_a.json'', ''wallet_bad.json'', ''notes.txt''])"
  "''wallet_bad.json'' \<in> set [''wallet_a.json'', ''wallet_bad.json'', ''notes.txt'']"
  "is_wallet_name ''wallet_bad.json''"
  "files bad_wallet_world (wallets_path @ [''wallet_bad.json'']) = Some (File None)"
  "loads decoded None = None"
  by (simp_all add: bad_wallet_world_def wallets_path_def decoded_def is_wallet_name_def
      startswith_def endswith_def)

lemma bad_wallet_more_facts:
  "files bad_wallet_world store_path = Some (File (Some (JArr [utxo_a, utxo_b])))"
  "loads decoded (Some (JArr [utxo_a, utxo_b])) = Some (JArr [utxo_a, utxo_b])"
  "[''wallet_a.json'', ''wallet_bad.json'', ''notes.txt''] =
     [''wallet_a.json''] @ ''wallet_bad.json'' # [''notes.txt'']"
  "fst (read_wallets decoded wallets_path [''wallet_a.json''] {} bad_wallet_world) =
     Inr {IStr ''pkA'', IStr ''addrA''}"
  by (simp add: bad_wallet_world_def example_fs_def wallets_path_def store_path_def decoded_def, 
      simp add: decoded_def, simp, code_simp)

theorem undecodable_wallet_aborts_witness:
  "files bad_wallet_world wallets_path =
     Some (Dir [''wallet_a.json'', ''wallet_bad.json'', ''notes.txt'']) \<and>
   is_wallet_name ''wallet_bad.json'' \<and>
   files bad_wallet_world (wallets_path @ [''wallet_bad.json'']) = Some (File None) \<and>
   loads decoded None = None \<and>
   (\<exists>e w'. clean_orphaned_utxos decoded noon store_path wallets_path True bad_wallet_world =
             (Inl e, w') \<and> files w' = files bad_wallet_world) \<and>
   fst (clean_orphaned_utxos decoded noon store_path wallets_path True bad_wallet_world) =
     Inl JSONDecodeError"
proof -
  note inst = undecodable_wallet_aborts[OF bad_wallet_facts,
      where u = store_path and now = noon and dry = True]
  from inst have a: "\<exists>e w'. clean_orphaned_utxos decoded noon store_path wallets_path True
      bad_wallet_world = (Inl e, w') \<and> files w' = files bad_wallet_world"
    by (rule conjunct1)
  from inst[THEN conjunct2] bad_wallet_more_facts
  have b: "fst (clean_orphaned_utxos decoded noon store_path wallets_path True bad_wallet_world) =
     Inl JSONDecodeError"
    by blast
  from bad_wallet_facts a b show ?thesis by simp
qed

text \<open>
  C8, as stated, fails: one undecodable file beside a good wallet record stops the run
  with the decoding error.
\<close>

theorem undecodable_wallet_stops_run:
  "fst (clean_orphaned_utxos decoded noon store_path wallets_path True bad_wallet_world) =
     Inl JSONDecodeError"
  by code_simp

subsection \<open>The write path\<close>

lemma file_at_Some: "file_at fs p = Some b \<longleftrightarrow> fs p = Some (File b)"
  by (auto simp: file_at_def split: option.splits node.splits)

lemma create_file_Inr:
  assumes "create_file p b fs = Inr fs'"
  shows "\<exists>names. fs (butlast p) = Some (Dir names) \<and>
           (\<forall>ns. fs p \<noteq> Some (Dir ns)) \<and> p \<noteq> butlast p \<and>
           fs' = fs(butlast p \<mapsto> Dir (if path_name p \<in> set names then names
                                         else names @ [path_name p]),
                    p \<mapsto> File b)"
proof -
  from assms obtain names where d: "fs (butlast p) = Some (Dir names)"
    by (auto simp: create_file_def split: option.splits node.splits)
  from assms have nd: "\<forall>ns. fs p \<noteq> Some (Dir ns)"
    by (auto simp: create_file_def split: option.splits node.splits)
  from d nd have ne: "p \<noteq> butlast p" by auto
  from assms d nd have "fs' = fs(butlast p \<mapsto> Dir (if path_name p \<in> set names then names
                                         else names @ [path_name p]),
                    p \<mapsto> File b)"
    by (auto simp: create_file_def split: option.splits node.splits)
  with d nd ne show ?thesis by blast
qed

lemma create_file_file_at:
  assumes "create_file p b fs = Inr fs'"
  shows "file_at fs' q = (if q = p then Some b else file_at fs q)"
proof -
  from create_file_Inr[OF assms] obtain names where
    d: "fs (butlast p) = Some (Dir names)" and ne: "p \<noteq> butlast p"
    and fs': "fs' = fs(butlast p \<mapsto> Dir (if path_name p \<in> set names then names
                                         else names @ [path_name p]),
                    p \<mapsto> File b)"
    by blast
  show ?thesis using d ne by (simp add: fs' file_at_def)
qed

lemma rewrite_store_Inr:
  assumes "rewrite_store cd now u owned w = (Inr x, w')"
  shows "\<exists>b0 target fs1 fs2.
      files w u = Some (File b0) \<and>
      target = copy_target (files w) u (backup_file u now) \<and> target \<noteq> u \<and>
      create_file target b0 (files w) = Inr fs1 \<and>
      create_file u (no_bytes cd) fs1 = Inr fs2 \<and>
      files w' = fs2(u \<mapsto> File (dumps cd (JArr owned))) \<and>
      trace w' = trace w @ [(EvCopy u target, fs1), (EvOpenWrite u, fs2), (EvDump u, files w')]"
proof -
  define target where "target = copy_target (files w) u (backup_file u now)"
  obtain rc w1 where c: "copy2 u (backup_file u now) w = (rc, w1)"
    by (cases "copy2 u (backup_file u now) w")
  with assms obtain t where rc: "rc = Inr t"
    by (cases rc) (simp_all add: rewrite_store_def)
  from c rc have ne: "\<not> (target = u \<and> files w u \<noteq> None)"
    by (auto simp: copy2_def Let_def target_def split: if_splits)
  from c rc ne obtain b0 where b0: "files w u = Some (File b0)"
    by (auto simp: copy2_def Let_def target_def split: if_splits option.splits node.splits)
  from ne b0 have tu: "target \<noteq> u" by simp
  from c rc tu b0 obtain fs1 where fs1: "create_file target b0 (files w) = Inr fs1"
    and w1: "w1 = commit (EvCopy u target) fs1 w"
    by (auto simp: copy2_def Let_def target_def split: if_splits sum.splits)
  obtain ro w2 where o: "open_write cd u w1 = (ro, w2)" by (cases "open_write cd u w1")
  from assms c rc o obtain y where ro: "ro = Inr y"
    by (cases ro) (simp_all add: rewrite_store_def)
  from o ro w1 obtain fs2 where fs2: "create_file u (no_bytes cd) fs1 = Inr fs2"
    and w2: "w2 = commit (EvOpenWrite u) fs2 w1"
    by (auto simp: open_write_def split: sum.splits)
  from assms c rc o ro have w': "w' = json_dump cd (JArr owned) u w2"
    by (simp add: rewrite_store_def)
  have "files w' = fs2(u \<mapsto> File (dumps cd (JArr owned)))"
    by (simp add: w' json_dump_def w2)
  moreover have "trace w' = trace w @ [(EvCopy u target, fs1), (EvOpenWrite u, fs2), (EvDump u, files w')]"
    by (simp add: w' json_dump_def w2 w1)
  ultimately show ?thesis using b0 tu fs1 fs2 target_def by blast
qed


lemma load_and_reconcile_Inr:
  assumes "fst (load_and_reconcile cd u d w) = Inr (owned, orphaned, rep)"
  shows "\<exists>b utxos names ids entries.
      files w u = Some (File b) \<and> loads cd b = Some utxos \<and>
      files w d = Some (Dir names) \<and>
      fst (read_wallets cd d names {} w) = Inr ids \<and>
      py_iter utxos = Inr entries \<and>
      reconcile ids entries = Inr (owned, orphaned, rep)"
  using assms unfolding load_and_reconcile_fst
  by (auto split: option.splits node.splits sum.splits)

lemma reconcile_Inr:
  assumes "reconcile ids entries = Inr (owned, orphaned, rep)"
  shows "owned = filter (is_owned ids) entries \<and>
         orphaned = filter (\<lambda>u. \<not> is_owned ids u) entries \<and>
         owned_utxos rep = length owned \<and> orphaned_utxos rep = length orphaned"
proof -
  from assms obtain c where p: "partition_utxos ids entries ([], [], 0) = Inr (owned, orphaned, c)"
    and rep: "rep = \<lparr> total_utxos = length owned + length orphaned, owned_utxos = length owned,
                  orphaned_utxos = length orphaned, orphaned_value_credits = c \<rparr>"
    by (auto simp: reconcile_Inr_iff)
  from partition_utxos_acc[OF p] rep show ?thesis by simp
qed

lemma clean_execute_Inr:
  assumes "clean_orphaned_utxos cd now u d False w = (Inr rep, w')"
  shows "\<exists>owned orphaned w4.
      load_and_reconcile cd u d w = (Inr (owned, orphaned, rep), w4) \<and>
      (if 0 < orphaned_utxos rep
       then (\<exists>x. rewrite_store cd now u owned w4 = (Inr x, w'))
       else w' = w4)"
proof -
  obtain r4 w4 where l: "load_and_reconcile cd u d w = (r4, w4)"
    by (cases "load_and_reconcile cd u d w")
  with assms obtain owned orphaned rep4 where r4: "r4 = Inr (owned, orphaned, rep4)"
    by (cases r4) (auto simp: clean_orphaned_utxos_def)
  show ?thesis
  proof (cases "0 < orphaned_utxos rep4")
    case False
    with assms l r4 have "rep4 = rep" "w' = w4" by (simp_all add: clean_orphaned_utxos_def)
    with l r4 False show ?thesis by simp
  next
    case True
    obtain r5 w5 where rw: "rewrite_store cd now u owned w4 = (r5, w5)"
      by (cases "rewrite_store cd now u owned w4")
    with assms l r4 True obtain x where "r5 = Inr x" "rep4 = rep" "w5 = w'"
      by (cases r5) (auto simp: clean_orphaned_utxos_def)
    with l r4 True rw show ?thesis by auto
  qed
qed

lemma execute_with_orphans:
  assumes "clean_orphaned_utxos cd now u d False w = (Inr rep, w')"
    and "0 < orphaned_utxos rep"
  shows "\<exists>b0 target pre fs1 fs2 owned orphaned.
      fst (load_and_reconcile cd u d w) = Inr (owned, orphaned, rep) \<and>
      file_at (files w) u = Some b0 \<and>
      target = copy_target (files w) u (backup_file u now) \<and> target \<noteq> u \<and>
      trace w' = trace w @ pre @
        [(EvCopy u target, fs1), (EvOpenWrite u, fs2), (EvDump u, files w')] \<and>
      quiet (files w) pre \<and>
      (\<forall>q. file_at fs1 q = (if q = target then Some b0 else file_at (files w) q)) \<and>
      (\<forall>q. file_at fs2 q = (if q = u then Some (no_bytes cd) else file_at fs1 q)) \<and>
      (\<forall>q. file_at (files w') q =
            (if q = u then Some (dumps cd (JArr owned)) else file_at fs2 q))"
proof -
  from clean_execute_Inr[OF assms(1)] assms(2) obtain owned orphaned w4 x where
    l: "load_and_reconcile cd u d w = (Inr (owned, orphaned, rep), w4)"
    and rw: "rewrite_store cd now u owned w4 = (Inr x, w')"
    by auto
  from load_and_reconcile_quiet[OF l] obtain pre where
    f4: "files w4 = files w" and t4: "trace w4 = trace w @ pre" and q: "quiet (files w) pre"
    by blast
  from rewrite_store_Inr[OF rw] obtain b0 target fs1 fs2 where
    b0: "files w4 u = Some (File b0)"
    and target: "target = copy_target (files w4) u (backup_file u now)" and tu: "target \<noteq> u"
    and c1: "create_file target b0 (files w4) = Inr fs1"
    and c2: "create_file u (no_bytes cd) fs1 = Inr fs2"
    and fw: "files w' = fs2(u \<mapsto> File (dumps cd (JArr owned)))"
    and tw: "trace w' = trace w4 @
        [(EvCopy u target, fs1), (EvOpenWrite u, fs2), (EvDump u, files w')]"
    by blast
  have a1: "\<forall>q. file_at fs1 q = (if q = target then Some b0 else file_at (files w) q)"
    using create_file_file_at[OF c1] f4 by simp
  have a2: "\<forall>q. file_at fs2 q = (if q = u then Some (no_bytes cd) else file_at fs1 q)"
    using create_file_file_at[OF c2] by simp
  have a3: "\<forall>q. file_at (files w') q =
            (if q = u then Some (dumps cd (JArr owned)) else file_at fs2 q)"
    by (simp add: fw file_at_def)
  have a0: "file_at (files w) u = Some b0"
    using b0 f4 by (simp add: file_at_Some)
  have a4: "trace w' = trace w @ pre @
        [(EvCopy u target, fs1), (EvOpenWrite u, fs2), (EvDump u, files w')]"
    using tw t4 by simp
  have a5: "fst (load_and_reconcile cd u d w) = Inr (owned, orphaned, rep)"
    using l by simp
  have target': "target = copy_target (files w) u (backup_file u now)"
    using target f4 by simp
  have c: "fst (load_and_reconcile cd u d w) = Inr (owned, orphaned, rep) \<and>
      file_at (files w) u = Some b0 \<and>
      target = copy_target (files w) u (backup_file u now) \<and> target \<noteq> u \<and>
      trace w' = trace w @ pre @
        [(EvCopy u target, fs1), (EvOpenWrite u, fs2), (EvDump u, files w')] \<and>
      quiet (files w) pre \<and>
      (\<forall>q. file_at fs1 q = (if q = target then Some b0 else file_at (files w) q)) \<and>
      (\<forall>q. file_at fs2 q = (if q = u then Some (no_bytes cd) else file_at fs1 q)) \<and>
      (\<forall>q. file_at (files w') q =
            (if q = u then Some (dumps cd (JArr owned)) else file_at fs2 q))"
    using a5 a0 target' tu a4 q a1 a2 a3 by (intro conjI)
  show ?thesis by (intro exI) (rule c)
qed

lemma execute_without_orphans:
  assumes "clean_orphaned_utxos cd now u d False w = (Inr rep, w')"
    and "orphaned_utxos rep = 0"
  shows "files w' = files w \<and> (\<exists>evs. trace w' = trace w @ evs \<and> quiet (files w) evs)"
proof -
  from clean_execute_Inr[OF assms(1)] assms(2) obtain owned orphaned where
    l: "load_and_reconcile cd u d w = (Inr (owned, orphaned, rep), w')"
    by auto
  from load_and_reconcile_quiet[OF l] show ?thesis .
qed

subsection \<open>The example store, cleaned\<close>

lemma example_execute_report:
  "fst (clean_orphaned_utxos decoded noon store_path wallets_path False example_world) =
     Inr \<lparr>total_utxos = 2, owned_utxos = 1, orphaned_utxos = 1, orphaned_value_credits = 300\<rparr>"
  by code_simp

lemma example_execute_run:
  "clean_orphaned_utxos decoded noon store_path wallets_path False example_world =
     (Inr \<lparr>total_utxos = 2, owned_utxos = 1, orphaned_utxos = 1, orphaned_value_credits = 300\<rparr>,
      snd (clean_orphaned_utxos decoded noon store_path wallets_path False example_world))"
  using example_execute_report by (metis prod.collapse)

lemma example_backup_file:
  "backup_file store_path noon = [''data'', ''wallet_utxos.json.orphan_backup_20250309_120007'']"
  by code_simp

lemma example_copy_target:
  "copy_target (files example_world) store_path (backup_file store_path noon) =
     [''data'', ''wallet_utxos.json.orphan_backup_20250309_120007'']"
  by code_simp

lemma example_store_content:
  "file_at (files example_world) store_path = Some (Some (JArr [utxo_a, utxo_b]))"
  by code_simp

subsection \<open>Backup first\<close>

text \<open>
  C2. Take a run with \<^verbatim>\<open>dry_run=False\<close> that returns its report. When the report counts
  at least one orphaned entry, the run's own events are read-only ones followed by exactly
  three: the copy of the store to the backup target, the opening of the store for
  writing, and the dump. Right after the copy the target holds the store's bytes, the
  store still holds them, and no other file has changed, so the copy made one file and
  made it before the store changed; the target keeps those bytes to the end, and at the
  end no file other than the store and the target differs from before. When the report
  counts no orphaned entry, the file system is unchanged and every event is read-only.
\<close>

theorem backup_before_write:
  assumes "clean_orphaned_utxos cd now u d False w = (Inr rep, w')"
  shows "(0 < orphaned_utxos rep \<longrightarrow>
      (\<exists>b0 target pre fs1 fs2.
         file_at (files w) u = Some b0 \<and>
         target = copy_target (files w) u (backup_file u now) \<and> target \<noteq> u \<and>
         trace w' = trace w @ pre @
           [(EvCopy u target, fs1), (EvOpenWrite u, fs2), (EvDump u, files w')] \<and>
         quiet (files w) pre \<and>
         file_at fs1 target = Some b0 \<and> file_at fs1 u = Some b0 \<and>
         (\<forall>q. q \<noteq> target \<longrightarrow> file_at fs1 q = file_at (files w) q) \<and>
         file_at fs2 target = Some b0 \<and>
         file_at (files w') target = Some b0 \<and>
         (\<forall>q. q \<noteq> target \<longrightarrow> q \<noteq> u \<longrightarrow> file_at (files w') q = file_at (files w) q))) \<and>
     (orphaned_utxos rep = 0 \<longrightarrow>
        files w' = files w \<and> (\<exists>evs. trace w' = trace w @ evs \<and> quiet (files w) evs))"
proof -
  have with_orphans: "\<exists>b0 target pre fs1 fs2.
         file_at (files w) u = Some b0 \<and>
         target = copy_target (files w) u (backup_file u now) \<and> target \<noteq> u \<and>
         trace w' = trace w @ pre @
           [(EvCopy u target, fs1), (EvOpenWrite u, fs2), (EvDump u, files w')] \<and>
         quiet (files w) pre \<and>
         file_at fs1 target = Some b0 \<and> file_at fs1 u = Some b0 \<and>
         (\<forall>q. q \<noteq> target \<longrightarrow> file_at fs1 q = file_at (files w) q) \<and>
         file_at fs2 target = Some b0 \<and>
         file_at (files w') target = Some b0 \<and>
         (\<forall>q. q \<noteq> target \<longrightarrow> q \<noteq> u \<longrightarrow> file_at (files w') q = file_at (files w) q)"
    if pos: "0 < orphaned_utxos rep"
  proof -
    from execute_with_orphans[OF assms pos] obtain b0 target pre fs1 fs2 owned where
      a0: "file_at (files w) u = Some b0"
      and target: "target = copy_target (files w) u (backup_file u now)" and tu: "target \<noteq> u"
      and tr: "trace w' = trace w @ pre @
          [(EvCopy u target, fs1), (EvOpenWrite u, fs2), (EvDump u, files w')]"
      and q: "quiet (files w) pre"
      and a1: "\<forall>q. file_at fs1 q = (if q = target then Some b0 else file_at (files w) q)"
      and a2: "\<forall>q. file_at fs2 q = (if q = u then Some (no_bytes cd) else file_at fs1 q)"
      and a3: "\<forall>q. file_at (files w') q =
              (if q = u then Some (dumps cd (JArr owned)) else file_at fs2 q)"
      by blast
    have b1: "file_at fs1 target = Some b0" using a1 by simp
    have b2: "file_at fs1 u = Some b0" using a0 a1 tu by simp
    have b3: "\<forall>q. q \<noteq> target \<longrightarrow> file_at fs1 q = file_at (files w) q" using a1 by simp
    have b4: "file_at fs2 target = Some b0" using a1 a2 tu by simp
    have b5: "file_at (files w') target = Some b0" using a1 a2 a3 tu by simp
    have b6: "\<forall>q. q \<noteq> target \<longrightarrow> q \<noteq> u \<longrightarrow> file_at (files w') q = file_at (files w) q"
      using a1 a2 a3 by simp
    have c: "file_at (files w) u = Some b0 \<and>
         target = copy_target (files w) u (backup_file u now) \<and> target \<noteq> u \<and>
         trace w' = trace w @ pre @
           [(EvCopy u target, fs1), (EvOpenWrite u, fs2), (EvDump u, files w')] \<and>
         quiet (files w) pre \<and>
         file_at fs1 target = Some b0 \<and> file_at fs1 u = Some b0 \<and>
         (\<forall>q. q \<noteq> target \<longrightarrow> file_at fs1 q = file_at (files w) q) \<and>
         file_at fs2 target = Some b0 \<and>
         file_at (files w') target = Some b0 \<and>
         (\<forall>q. q \<noteq> target \<longrightarrow> q \<noteq> u \<longrightarrow> file_at (files w') q = file_at (files w) q)"
      using a0 target tu tr q b1 b2 b3 b4 b5 b6 by (intro conjI)
    show ?thesis by (intro exI) (rule c)
  qed
  have without: "files w' = files w \<and> (\<exists>evs. trace w' = trace w @ evs \<and> quiet (files w) evs)"
    if "orphaned_utxos rep = 0"
    using execute_without_orphans[OF assms that] .
  show ?thesis by (rule conjI[OF impI[OF with_orphans] impI[OF without]])
qed

theorem backup_before_write_witness:
  "clean_orphaned_utxos decoded noon store_path wallets_path False example_world =
     (Inr \<lparr>total_utxos = 2, owned_utxos = 1, orphaned_utxos = 1, orphaned_value_credits = 300\<rparr>,
      snd (clean_orphaned_utxos decoded noon store_path wallets_path False example_world)) \<and>
   (\<exists>b0 target.
      file_at (files example_world) store_path = Some b0 \<and>
      target = copy_target (files example_world) store_path (backup_file store_path noon) \<and>
      target \<noteq> store_path \<and>
      file_at (files (snd (clean_orphaned_utxos decoded noon store_path wallets_path False
                             example_world))) target = Some b0)"
proof -
  note inst = backup_before_write[OF example_execute_run, THEN conjunct1, rule_format]
  have "0 < orphaned_utxos
     \<lparr>total_utxos = 2, owned_utxos = 1, orphaned_utxos = 1, orphaned_value_credits = 300\<rparr>"
    by simp
  from inst[OF this] example_execute_run show ?thesis by blast
qed

subsection \<open>The store is rewritten in place\<close>




subsection \<open>The name of the backup\<close>

lemma length_zero_padded [simp]: "length (zero_padded width n) = width"
  by (induction width arbitrary: n) simp_all

lemma digit_is_decimal: "digit n \<in> set ''0123456789''"
proof -
  have "n mod 10 < length ''0123456789''" by simp
  then have "''0123456789'' ! (n mod 10) \<in> set ''0123456789''" by (rule nth_mem)
  then show ?thesis by (simp only: digit_def)
qed

lemma zero_padded_decimal: "set (zero_padded width n) \<subseteq> set ''0123456789''"
proof (induction width arbitrary: n)
  case 0
  show ?case by simp
next
  case (Suc width)
  from Suc.IH[of "n div 10"] digit_is_decimal[of n] show ?case by auto
qed

lemma strftime_shape:
  "length (strftime t) = 15 \<and> strftime t ! 8 = CHR ''_'' \<and>
   (\<forall>i<15. i \<noteq> 8 \<longrightarrow> strftime t ! i \<in> set ''0123456789'')"
proof -
  define date where "date = zero_padded 4 (year t) @ zero_padded 2 (month t) @ zero_padded 2 (day t)"
  define time where "time = zero_padded 2 (hour t) @ zero_padded 2 (minute t) @ zero_padded 2 (second t)"
  have s: "strftime t = date @ CHR ''_'' # time"
    by (simp add: strftime_def date_def time_def)
  have ld: "length date = 8" and lt: "length time = 6"
    by (simp_all add: date_def time_def)
  have dd: "set date \<subseteq> set ''0123456789''" and dt: "set time \<subseteq> set ''0123456789''"
    unfolding date_def time_def using zero_padded_decimal by (simp_all del: zero_padded.simps)
  have "strftime t ! i \<in> set ''0123456789''" if "i < 15" "i \<noteq> 8" for i
  proof (cases "i < 8")
    case True
    then have "strftime t ! i = date ! i" by (simp add: s nth_append ld)
    moreover have "date ! i \<in> set date" using True ld by simp
    ultimately show ?thesis using dd by auto
  next
    case False
    with that have i: "8 < i" "i - 9 < 6" by simp_all
    then have "strftime t ! i = time ! (i - 9)"
      by (simp add: s nth_append ld nth_Cons')
    moreover have "time ! (i - 9) \<in> set time" using i lt by simp
    ultimately show ?thesis using dt by auto
  qed
  then show ?thesis by (simp add: s ld lt nth_append)
qed

lemma execute_backup_path:
  assumes "clean_orphaned_utxos cd now u d False w = (Inr rep, w')"
    and "0 < orphaned_utxos rep"
    and "\<forall>names. files w (backup_file u now) \<noteq> Some (Dir names)"
  shows "\<exists>b0. file_at (files w) u = Some b0 \<and> file_at (files w') (backup_file u now) = Some b0"
proof -
  from execute_with_orphans[OF assms(1,2)] obtain b0 target pre fs1 fs2 owned where
    a0: "file_at (files w) u = Some b0"
    and target: "target = copy_target (files w) u (backup_file u now)" and tu: "target \<noteq> u"
    and a1: "\<forall>q. file_at fs1 q = (if q = target then Some b0 else file_at (files w) q)"
    and a2: "\<forall>q. file_at fs2 q = (if q = u then Some (no_bytes cd) else file_at fs1 q)"
    and a3: "\<forall>q. file_at (files w') q =
            (if q = u then Some (dumps cd (JArr owned)) else file_at fs2 q)"
    by blast
  have "target = backup_file u now"
    using assms(3) by (auto simp: target copy_target_def split: option.splits node.splits)
  with a0 a1 a2 a3 tu show ?thesis by simp
qed

text \<open>
  C6, as the code has it. Line 75 builds the backup path from the store's parent directory
  and the fixed string \<^verbatim>\<open>wallet_utxos.json.orphan_backup_\<close> followed by the timestamp; the
  store's own file name is not used. Take a run with \<^verbatim>\<open>dry_run=False\<close> that returns a
  report counting at least one orphaned entry, at a time whose year has four digits, with
  no directory already at the backup path. At the end the file at the backup path holds
  the bytes the store held at the start. The backup path has the store's parent
  directory; its last component is \<^verbatim>\<open>wallet_utxos.json.orphan_backup_\<close> followed by the
  timestamp; the timestamp has fifteen characters, an underscore at the ninth place and
  decimal digits elsewhere. When the store is itself named \<^verbatim>\<open>wallet_utxos.json\<close>,
  the backup's name is the store's name followed by \<^verbatim>\<open>.orphan_backup_\<close> and the
  timestamp.
\<close>

theorem backup_beside_store:
  assumes "clean_orphaned_utxos cd now u d False w = (Inr rep, w')"
    and "0 < orphaned_utxos rep"
    and "\<forall>names. files w (backup_file u now) \<noteq> Some (Dir names)"
    and "1000 \<le> year now" and "year now \<le> 9999"
  shows "(\<exists>b0. file_at (files w) u = Some b0 \<and>
               file_at (files w') (backup_file u now) = Some b0) \<and>
         butlast (backup_file u now) = butlast u \<and>
         path_name (backup_file u now) = ''wallet_utxos.json.orphan_backup_'' @ strftime now \<and>
         length (strftime now) = 15 \<and> strftime now ! 8 = CHR ''_'' \<and>
         (\<forall>i<15. i \<noteq> 8 \<longrightarrow> strftime now ! i \<in> set ''0123456789'') \<and>
         (path_name u = ''wallet_utxos.json'' \<longrightarrow>
            path_name (backup_file u now) = path_name u @ ''.orphan_backup_'' @ strftime now)"
proof -
  have "backup_file u now \<noteq> []"
    by (simp add: backup_file_def)
  then have "path_name (backup_file u now) = last (backup_file u now)"
    by (cases "backup_file u now") (simp_all add: path_name_def)
  then have n: "path_name (backup_file u now) = ''wallet_utxos.json.orphan_backup_'' @ strftime now"
    by (simp add: backup_file_def)
  have p: "butlast (backup_file u now) = butlast u"
    by (simp add: backup_file_def butlast_append)
  have o: "path_name u = ''wallet_utxos.json'' \<longrightarrow>
            path_name (backup_file u now) = path_name u @ ''.orphan_backup_'' @ strftime now"
    using n by simp
  from execute_backup_path[OF assms(1,2,3)] n p o strftime_shape[of now]
  show ?thesis by (intro conjI) simp_all
qed

theorem backup_beside_store_witness:
  "clean_orphaned_utxos decoded noon store_path wallets_path False example_world =
     (Inr \<lparr>total_utxos = 2, owned_utxos = 1, orphaned_utxos = 1, orphaned_value_credits = 300\<rparr>,
      snd (clean_orphaned_utxos decoded noon store_path wallets_path False example_world)) \<and>
   files example_world [''data'', ''wallet_utxos.json.orphan_backup_20250309_120007''] = None \<and>
   year noon = 2025 \<and>
   file_at (files (snd (clean_orphaned_utxos decoded noon store_path wallets_path False
                          example_world)))
     [''data'', ''wallet_utxos.json.orphan_backup_20250309_120007''] =
     Some (Some (JArr [utxo_a, utxo_b])) \<and>
   path_name (backup_file store_path noon) = ''wallet_utxos.json.orphan_backup_20250309_120007'' \<and>
   strftime noon = ''20250309_120007''"
proof -
  have pos: "0 < orphaned_utxos
     \<lparr>total_utxos = 2, owned_utxos = 1, orphaned_utxos = 1, orphaned_value_credits = 300\<rparr>"
    by simp
  have none: "files example_world [''data'', ''wallet_utxos.json.orphan_backup_20250309_120007''] = None"
    by code_simp
  then have nodir: "\<forall>names. files example_world (backup_file store_path noon) \<noteq> Some (Dir names)"
    by (simp add: example_backup_file)
  have y: "year noon = 2025" by (simp add: noon_def)
  then have y1: "1000 \<le> year noon" and y2: "year noon \<le> 9999" by simp_all
  have st: "strftime noon = ''20250309_120007''" by code_simp
  from backup_beside_store[OF example_execute_run pos nodir y1 y2]
  have a: "\<exists>b0. file_at (files example_world) store_path = Some b0 \<and>
             file_at (files (snd (clean_orphaned_utxos decoded noon store_path wallets_path False
                          example_world))) (backup_file store_path noon) = Some b0"
    and b: "path_name (backup_file store_path noon) =
              ''wallet_utxos.json.orphan_backup_'' @ strftime noon"
    by simp_all
  from a have a': "file_at (files (snd (clean_orphaned_utxos decoded noon store_path wallets_path False
                          example_world)))
     [''data'', ''wallet_utxos.json.orphan_backup_20250309_120007''] =
     Some (Some (JArr [utxo_a, utxo_b]))"
    by (auto simp: example_store_content example_backup_file)
  from b have b': "path_name (backup_file store_path noon) =
      ''wallet_utxos.json.orphan_backup_20250309_120007''"
    by (simp add: st)
  from example_execute_run none y a' b' st show ?thesis by (intro conjI)
qed

text \<open>
  C6, as stated, fails: for a store named \<^verbatim>\<open>utxos.json\<close> the backup is written to
  \<^verbatim>\<open>wallet_utxos.json.orphan_backup_20250309_120007\<close> beside it, and nothing exists under
  \<^verbatim>\<open>utxos.json.orphan_backup_20250309_120007\<close>.
\<close>

theorem backup_not_named_after_store:
  "fst (clean_orphaned_utxos decoded noon renamed_store_path wallets_path False
          renamed_store_world) =
     Inr \<lparr>total_utxos = 2, owned_utxos = 1, orphaned_utxos = 1, orphaned_value_credits = 300\<rparr> \<and>
   path_name renamed_store_path = ''utxos.json'' \<and>
   file_at (files (snd (clean_orphaned_utxos decoded noon renamed_store_path wallets_path False
                          renamed_store_world)))
     [''data'', ''wallet_utxos.json.orphan_backup_20250309_120007''] =
     Some (Some (JArr [utxo_a, utxo_b])) \<and>
   files (snd (clean_orphaned_utxos decoded noon renamed_store_path wallets_path False
                 renamed_store_world))
     [''data'', ''utxos.json.orphan_backup_20250309_120007''] = None"
  by code_simp

subsection \<open>A second run\<close>

lemma partition_utxos_owned:
  "\<forall>u\<in>set xs. is_owned ids u \<Longrightarrow>
   partition_utxos ids xs (ow, orph, c) = Inr (ow @ xs, orph, c)"
proof (induction xs arbitrary: ow)
  case Nil
  show ?case by simp
next
  case (Cons x xs)
  from Cons.prems have "is_owned ids x" by simp
  then obtain a h where "py_get x ''address'' (JStr '''') = Inr a" "py_hashable a = Inr h" "h \<in> ids"
    by (auto simp: is_owned_def entry_ident_def split: sum.splits option.splits)
  moreover from Cons.prems have "\<forall>u\<in>set xs. is_owned ids u" by simp
  ultimately show ?case using Cons.IH[of "ow @ [x]"] by simp
qed

lemma reconcile_owned:
  "reconcile ids (filter (is_owned ids) entries) =
     Inr (filter (is_owned ids) entries, [],
          \<lparr> total_utxos = length (filter (is_owned ids) entries),
            owned_utxos = length (filter (is_owned ids) entries),
            orphaned_utxos = 0, orphaned_value_credits = 0 \<rparr>)"
proof -
  have "partition_utxos ids (filter (is_owned ids) entries) ([], [], 0) =
          Inr ([] @ filter (is_owned ids) entries, [], 0)"
    by (rule partition_utxos_owned) simp
  then show ?thesis by (simp add: reconcile_Inr_iff float_overflow_def)
qed

lemma clean_without_orphans:
  assumes "fst (load_and_reconcile cd u d w) = Inr (owned, orphaned, rep)"
    and "orphaned_utxos rep = 0"
  shows "\<exists>w'. clean_orphaned_utxos cd now u d dry w = (Inr rep, w') \<and> files w' = files w \<and>
           (\<exists>evs. trace w' = trace w @ evs \<and> quiet (files w) evs)"
proof -
  obtain w4 where l: "load_and_reconcile cd u d w = (Inr (owned, orphaned, rep), w4)"
    using assms(1) by (cases "load_and_reconcile cd u d w") simp
  have "clean_orphaned_utxos cd now u d dry w = (Inr rep, w4)"
    using l assms(2) by (simp add: clean_orphaned_utxos_def)
  with load_and_reconcile_quiet[OF l] show ?thesis by simp
qed

lemma execute_frame:
  assumes "clean_orphaned_utxos cd now u d False w = (Inr rep, w')"
  shows "\<forall>q. q \<notin> {u, butlast u, copy_target (files w) u (backup_file u now),
                   butlast (copy_target (files w) u (backup_file u now))} \<longrightarrow>
             files w' q = files w q"
proof (cases "0 < orphaned_utxos rep")
  case False
  with execute_without_orphans[OF assms] show ?thesis by simp
next
  case True
  with clean_execute_Inr[OF assms] obtain owned orphaned w4 x where
    l: "load_and_reconcile cd u d w = (Inr (owned, orphaned, rep), w4)"
    and rw: "rewrite_store cd now u owned w4 = (Inr x, w')"
    by auto
  from load_and_reconcile_quiet[OF l] have f4: "files w4 = files w" by simp
  from rewrite_store_Inr[OF rw] obtain b0 target fs1 fs2 where
    target: "target = copy_target (files w4) u (backup_file u now)"
    and c1: "create_file target b0 (files w4) = Inr fs1"
    and c2: "create_file u (no_bytes cd) fs1 = Inr fs2"
    and fw: "files w' = fs2(u \<mapsto> File (dumps cd (JArr owned)))"
    by blast
  from create_file_Inr[OF c1] obtain n1 where
    fs1: "fs1 = (files w4)(butlast target \<mapsto> Dir n1, target \<mapsto> File b0)" by blast
  from create_file_Inr[OF c2] obtain n2 where
    fs2: "fs2 = fs1(butlast u \<mapsto> Dir n2, u \<mapsto> File (no_bytes cd))" by blast
  show ?thesis using target f4 by (simp add: fw fs2 fs1)
qed

text \<open>
  C4. Let \<^verbatim>\<open>json.load\<close> give back every value that \<^verbatim>\<open>json.dump\<close> has written. Take a run with
  \<^verbatim>\<open>dry_run=False\<close> that returns its report, and let the wallet directory and every path
  directly inside it be, after that run, what they were before it. Then a second run with
  \<^verbatim>\<open>dry_run=False\<close>, started in the state the first one left and at any time, returns a
  report that counts no orphaned entry, sums no orphaned value and counts as owned, and as
  total, the entries the first run counted as owned; it leaves every file as it found it,
  and every one of its events is a read-only one.
\<close>

theorem second_execute_changes_nothing:
  assumes "\<forall>v. loads cd (dumps cd v) = Some v"
    and "clean_orphaned_utxos cd now1 u d False w0 = (Inr r1, w1)"
    and "files w1 d = files w0 d"
    and "\<forall>n. files w1 (d @ [n]) = files w0 (d @ [n])"
  shows "\<exists>r2 w2. clean_orphaned_utxos cd now2 u d False w1 = (Inr r2, w2) \<and>
           orphaned_utxos r2 = 0 \<and> orphaned_value_credits r2 = 0 \<and>
           owned_utxos r2 = owned_utxos r1 \<and> total_utxos r2 = owned_utxos r1 \<and>
           files w2 = files w1 \<and>
           (\<exists>evs. trace w2 = trace w1 @ evs \<and> quiet (files w1) evs)"
proof -
  from clean_execute_Inr[OF assms(2)] obtain owned orphaned w4 where
    l0: "load_and_reconcile cd u d w0 = (Inr (owned, orphaned, r1), w4)"
    by blast
  then have "fst (load_and_reconcile cd u d w0) = Inr (owned, orphaned, r1)" by simp
  from load_and_reconcile_Inr[OF this] obtain b utxos names ids entries where
    dir: "files w0 d = Some (Dir names)"
    and ids: "fst (read_wallets cd d names {} w0) = Inr ids"
    and it: "py_iter utxos = Inr entries"
    and b: "files w0 u = Some (File b)" and ld: "loads cd b = Some utxos"
    and rc: "reconcile ids entries = Inr (owned, orphaned, r1)"
    by blast
  from reconcile_Inr[OF rc] have owned: "owned = filter (is_owned ids) entries"
    and orphaned: "orphaned = filter (\<lambda>u. \<not> is_owned ids u) entries"
    and n1: "owned_utxos r1 = length owned" and o1: "orphaned_utxos r1 = length orphaned"
    by simp_all
  have ids1: "fst (read_wallets cd d names {} w1) = Inr ids"
    using read_wallets_cong[of names w1 d w0 cd "{}"] assms(4) ids by simp
  define r where "r = \<lparr> total_utxos = length owned, owned_utxos = length owned,
                        orphaned_utxos = 0, orphaned_value_credits = 0 \<rparr>"
  have rc2: "reconcile ids owned = Inr (owned, [], r)"
    unfolding owned r_def by (rule reconcile_owned)
  have "\<exists>orphaned2 r2. fst (load_and_reconcile cd u d w1) = Inr (owned, orphaned2, r2) \<and>
           orphaned_utxos r2 = 0 \<and> orphaned_value_credits r2 = 0 \<and>
           owned_utxos r2 = owned_utxos r1 \<and> total_utxos r2 = owned_utxos r1"
  proof (cases "0 < orphaned_utxos r1")
    case True
    from execute_with_orphans[OF assms(2) True] obtain owned' orphaned' where
      l: "fst (load_and_reconcile cd u d w0) = Inr (owned', orphaned', r1)"
      and f: "file_at (files w1) u = Some (dumps cd (JArr owned'))"
      by (metis (no_types, lifting))
    from l l0 have "owned' = owned" by simp
    with f assms(1) have bs: "files w1 u = Some (File (dumps cd (JArr owned)))"
      and lbs: "loads cd (dumps cd (JArr owned)) = Some (JArr owned)"
      by (simp_all add: file_at_Some)
    have "fst (load_and_reconcile cd u d w1) = Inr (owned, [], r)"
      unfolding load_and_reconcile_fst using bs lbs assms(3) dir ids1 rc2 by simp
    then show ?thesis using n1 by (auto simp: r_def)
  next
    case False
    from execute_without_orphans[OF assms(2)] False have "files w1 = files w0" by simp
    then have "fst (load_and_reconcile cd u d w1) = fst (load_and_reconcile cd u d w0)"
      by (intro load_and_reconcile_cong) simp_all
    with l0 have l1: "fst (load_and_reconcile cd u d w1) = Inr (owned, orphaned, r1)" by simp
    from False o1 have e: "orphaned = []" by simp
    from rc obtain c where
      p: "partition_utxos ids entries ([], [], 0) = Inr (owned, orphaned, c)"
      and rep: "r1 = \<lparr> total_utxos = length owned + length orphaned, owned_utxos = length owned,
                  orphaned_utxos = length orphaned, orphaned_value_credits = c \<rparr>"
      by (auto simp: reconcile_Inr_iff)
    from partition_utxos_acc[OF p] orphaned e have "c = 0" by simp
    with l1 rep e show ?thesis by auto
  qed
  then obtain orphaned2 r2 where
    l1: "fst (load_and_reconcile cd u d w1) = Inr (owned, orphaned2, r2)"
    and z: "orphaned_utxos r2 = 0" and z': "orphaned_value_credits r2 = 0"
    and e1: "owned_utxos r2 = owned_utxos r1" and e2: "total_utxos r2 = owned_utxos r1"
    by blast
  from clean_without_orphans[OF l1 z, of now2 False] obtain w2 where
    run2: "clean_orphaned_utxos cd now2 u d False w1 = (Inr r2, w2)"
    and f2: "files w2 = files w1"
    and t2: "\<exists>evs. trace w2 = trace w1 @ evs \<and> quiet (files w1) evs"
    by blast
  have c: "clean_orphaned_utxos cd now2 u d False w1 = (Inr r2, w2) \<and>
           orphaned_utxos r2 = 0 \<and> orphaned_value_credits r2 = 0 \<and>
           owned_utxos r2 = owned_utxos r1 \<and> total_utxos r2 = owned_utxos r1 \<and>
           files w2 = files w1 \<and>
           (\<exists>evs. trace w2 = trace w1 @ evs \<and> quiet (files w1) evs)"
    using run2 z z' e1 e2 f2 t2 by (intro conjI)
  show ?thesis by (intro exI) (rule c)
qed

theorem second_execute_changes_nothing_witness:
  "clean_orphaned_utxos decoded noon store_path wallets_path False example_world =
     (Inr \<lparr>total_utxos = 2, owned_utxos = 1, orphaned_utxos = 1, orphaned_value_credits = 300\<rparr>,
      snd (clean_orphaned_utxos decoded noon store_path wallets_path False example_world)) \<and>
   fst (clean_orphaned_utxos decoded (noon\<lparr>minute := 1\<rparr>) store_path wallets_path False
          (snd (clean_orphaned_utxos decoded noon store_path wallets_path False example_world))) =
     Inr \<lparr>total_utxos = 1, owned_utxos = 1, orphaned_utxos = 0, orphaned_value_credits = 0\<rparr> \<and>
   files (snd (clean_orphaned_utxos decoded (noon\<lparr>minute := 1\<rparr>) store_path wallets_path False
          (snd (clean_orphaned_utxos decoded noon store_path wallets_path False example_world)))) =
     files (snd (clean_orphaned_utxos decoded noon store_path wallets_path False example_world))"
proof -
  let ?w1 = "snd (clean_orphaned_utxos decoded noon store_path wallets_path False example_world)"
  have rt: "\<forall>v. loads decoded (dumps decoded v) = Some v"
    by (simp add: decoded_def)
  note frame = execute_frame[OF example_execute_run, unfolded example_copy_target, rule_format]
  have dir: "files ?w1 wallets_path = files example_world wallets_path"
    by (rule frame) (simp add: store_path_def wallets_path_def)
  have wallets: "\<forall>n. files ?w1 (wallets_path @ [n]) = files example_world (wallets_path @ [n])"
  proof
    fix n
    show "files ?w1 (wallets_path @ [n]) = files example_world (wallets_path @ [n])"
      by (rule frame) (simp add: store_path_def wallets_path_def)
  qed
  from second_execute_changes_nothing[OF rt example_execute_run dir wallets,
      of "noon\<lparr>minute := 1\<rparr>"]
  obtain r2 w2 where
    run2: "clean_orphaned_utxos decoded (noon\<lparr>minute := 1\<rparr>) store_path wallets_path False ?w1 =
             (Inr r2, w2)"
    and r: "orphaned_utxos r2 = 0" "orphaned_value_credits r2 = 0"
           "owned_utxos r2 = 1" "total_utxos r2 = 1"
    and f: "files w2 = files ?w1"
    by auto
  from r have "r2 = \<lparr>total_utxos = 1, owned_utxos = 1, orphaned_utxos = 0, orphaned_value_credits = 0\<rparr>"
    by (cases r2) simp
  with run2 f example_execute_run show ?thesis by simp
qed

end
